theory Spec2Isabelle
  imports Main "HOL-Library.Word"
begin

section \<open>Values shared by the tables\<close>

text \<open>
  The store is PostgreSQL reached through drizzle-orm. A table is modelled as the list of
  its rows in insertion order, together with the next value of its \<open>serial\<close> sequence.
  A nullable column has an \<open>option\<close> type (\<open>None\<close> is SQL NULL), a \<open>notNull\<close>
  column a plain one. A \<open>timestamp\<close> is a number of milliseconds; the current time is
  an argument of every operation that reads a clock (\<open>new Date()\<close>, \<open>defaultNow()\<close>).
  A statement that the store rejects raises and changes nothing: a value wider than its
  \<open>varchar\<close> column, a \<open>visit_count\<close> beyond the 32-bit range of an \<open>integer\<close>
  column, a duplicate of a \<open>unique()\<close> column. A select without \<open>orderBy\<close> returns its
  rows in an order of the store's choosing; where more than one row can match, the choice
  is an argument of the operation. Strings are lists of characters, which is what a
  \<open>varchar\<close> width counts. Outside the model: a failure of the connection and the
  exhaustion of a \<open>serial\<close> sequence.
\<close>

type_synonym timestamp = int

type_synonym bytes = "8 word list"

datatype store_error = UniqueViolation string

section \<open>Credential store (server/storage.ts, lines 8 to 22)\<close>

text \<open>
  \<open>Buffer.toString('hex')\<close>: two lower-case hexadecimal digits for each byte.
\<close>

definition hex_digit :: "nat \<Rightarrow> char" where
  "hex_digit n = ''0123456789abcdef'' ! (n mod 16)"

definition toString_hex :: "bytes \<Rightarrow> string" where
  "toString_hex bs = concat (map (\<lambda>b. [hex_digit (unat b div 16), hex_digit (unat b mod 16)]) bs)"

text \<open>
  \<open>crypto.pbkdf2Sync(password, salt, iterations, keylen, digest)\<close> belongs to Node, not
  to the repository: it is a parameter of the model. It is a function of its five
  arguments and returns a buffer of \<open>keylen\<close> bytes; \<open>keylen_ok\<close> states the latter.
\<close>

type_synonym pbkdf2 = "string \<Rightarrow> string \<Rightarrow> nat \<Rightarrow> nat \<Rightarrow> string \<Rightarrow> bytes"

definition keylen_ok :: "pbkdf2 \<Rightarrow> bool" where
  "keylen_ok kdf = (\<forall>p s i n d. length (kdf p s i n d) = n)"

text \<open>
  \<open>generateSalt\<close>: the argument is the buffer that \<open>crypto.randomBytes(16)\<close> returns at
  this call.
\<close>

definition generateSalt :: "bytes \<Rightarrow> string" where
  "generateSalt randomBytes16 = toString_hex randomBytes16"

definition hashPassword :: "pbkdf2 \<Rightarrow> string \<Rightarrow> string \<Rightarrow> string" where
  "hashPassword kdf pw slt = toString_hex (kdf pw slt 1000 64 ''sha512'')"

definition verifyPassword :: "pbkdf2 \<Rightarrow> string \<Rightarrow> string \<Rightarrow> string \<Rightarrow> bool" where
  "verifyPassword kdf pw slt storedHash = (let hash = hashPassword kdf pw slt in hash = storedHash)"

section \<open>Users (shared/schema.ts lines 5 to 15, server/storage.ts lines 59 to 149)\<close>

record user =
  user_id :: int
  username :: string
  email :: string
  password :: string
  salt :: string
  role :: string
  isActive :: bool
  createdAt :: timestamp
  lastLogin :: "timestamp option"

record user_table =
  users :: "user list"
  users_seq :: int

definition empty_users :: user_table where
  "empty_users = \<lparr>users = [], users_seq = 1\<rparr>"

text \<open>
  \<open>const [user] = await db.select().from(users).where(eq(...)); return user || undefined\<close>:
  the first row of the result, if any.
\<close>

definition getUser :: "user_table \<Rightarrow> int \<Rightarrow> user option" where
  "getUser t i = find (\<lambda>u. user_id u = i) (users t)"

definition getUserByUsername :: "user_table \<Rightarrow> string \<Rightarrow> user option" where
  "getUserByUsername t name = find (\<lambda>u. username u = name) (users t)"

definition getUserByEmail :: "user_table \<Rightarrow> string \<Rightarrow> user option" where
  "getUserByEmail t mail = find (\<lambda>u. email u = mail) (users t)"

text \<open>
  \<open>createUser\<close>: the insert gives \<open>id\<close> the next sequence value, \<open>isActive\<close> its default
  \<open>true\<close>, \<open>createdAt\<close> the current time and leaves \<open>lastLogin\<close> NULL. \<open>userData.role ||
  'user'\<close> replaces a missing or empty role. The \<open>unique()\<close> constraints on \<open>username\<close>
  and \<open>email\<close> make the insert throw when either value is taken already; the rows are
  then unchanged.
\<close>

definition createUser ::
  "pbkdf2 \<Rightarrow> bytes \<Rightarrow> timestamp \<Rightarrow> string \<Rightarrow> string \<Rightarrow> string \<Rightarrow> string option \<Rightarrow> user_table
   \<Rightarrow> store_error + (user \<times> user_table)" where
  "createUser kdf rnd now uname mail pw rl t =
     (let newSalt = generateSalt rnd;
          hashedPassword = hashPassword kdf pw newSalt;
          u = \<lparr>user_id = users_seq t, username = uname, email = mail,
               password = hashedPassword, salt = newSalt,
               role = (case rl of None \<Rightarrow> ''user'' | Some r \<Rightarrow> if r = [] then ''user'' else r),
               isActive = True, createdAt = now, lastLogin = None\<rparr>
      in if list_ex (\<lambda>x. username x = uname) (users t) then Inl (UniqueViolation ''username'')
         else if list_ex (\<lambda>x. email x = mail) (users t) then Inl (UniqueViolation ''email'')
         else Inr (u, \<lparr>users = users t @ [u], users_seq = users_seq t + 1\<rparr>))"

definition verifyUser :: "pbkdf2 \<Rightarrow> user_table \<Rightarrow> string \<Rightarrow> string \<Rightarrow> user option" where
  "verifyUser kdf t loginUsername loginPassword =
     (case getUserByUsername t loginUsername of
        None \<Rightarrow> None
      | Some u \<Rightarrow>
          if \<not> isActive u then None
          else let isPasswordValid = verifyPassword kdf loginPassword (salt u) (password u)
               in if isPasswordValid then Some u else None)"

text \<open>
  \<open>updateUserPassword\<close>: the \<open>catch\<close> branch answers a failure of the store, which is
  outside the model; the statements of the \<open>try\<close> block raise nothing else.
\<close>

definition updateUserPassword ::
  "pbkdf2 \<Rightarrow> bytes \<Rightarrow> int \<Rightarrow> string \<Rightarrow> user_table \<Rightarrow> bool \<times> user_table" where
  "updateUserPassword kdf rnd userId newPassword t =
     (case getUser t userId of
        None \<Rightarrow> (False, t)
      | Some _ \<Rightarrow>
          let newSalt = generateSalt rnd;
              hashedPassword = hashPassword kdf newPassword newSalt
          in (True, t\<lparr>users := map (\<lambda>u. if user_id u = userId
                                         then u\<lparr>password := hashedPassword, salt := newSalt\<rparr>
                                         else u) (users t)\<rparr>))"

section \<open>Registration route (server/routes.ts, \<open>POST /api/auth/register\<close>)\<close>

text \<open>
  The JSON body of a response. \<open>withoutSensitiveData\<close> is the destructuring
  \<open>const { password: _, salt: __, ...userWithoutSensitiveData } = newUser\<close>.
\<close>

record user_view =
  view_id :: int
  view_username :: string
  view_email :: string
  view_role :: string
  view_isActive :: bool
  view_createdAt :: timestamp
  view_lastLogin :: "timestamp option"

definition withoutSensitiveData :: "user \<Rightarrow> user_view" where
  "withoutSensitiveData u =
     \<lparr>view_id = user_id u, view_username = username u, view_email = email u,
      view_role = role u, view_isActive = isActive u, view_createdAt = createdAt u,
      view_lastLogin = lastLogin u\<rparr>"

record response =
  status :: nat
  success :: bool
  message :: string
  body_user :: "user_view option"

text \<open>
  A field of \<open>req.body\<close> is a string or is missing; \<open>!x\<close> holds of a missing field
  and of the empty string.
\<close>

definition falsy :: "string option \<Rightarrow> bool" where
  "falsy x = (case x of None \<Rightarrow> True | Some s \<Rightarrow> s = [])"

definition register ::
  "pbkdf2 \<Rightarrow> bytes \<Rightarrow> timestamp \<Rightarrow> string option \<Rightarrow> string option \<Rightarrow> string option \<Rightarrow> user_table
   \<Rightarrow> response \<times> user_table" where
  "register kdf rnd now body_username body_email body_password t =
     (if falsy body_username \<or> falsy body_email \<or> falsy body_password
      then (\<lparr>status = 400, success = False,
              message = ''Username, email, dan password harus diisi'', body_user = None\<rparr>, t)
      else case getUserByUsername t (the body_username) of
        Some existingUser \<Rightarrow>
          (\<lparr>status = 400, success = False, message = ''Username sudah digunakan'',
            body_user = None\<rparr>, t)
      | None \<Rightarrow>
         (case getUserByEmail t (the body_email) of
            Some existingEmail \<Rightarrow>
              (\<lparr>status = 400, success = False, message = ''Email sudah digunakan'',
                body_user = None\<rparr>, t)
          | None \<Rightarrow>
             (case createUser kdf rnd now (the body_username) (the body_email)
                     (the body_password) None t of
                Inl err \<Rightarrow>
                  (\<lparr>status = 500, success = False, message = ''Gagal melakukan registrasi'',
                    body_user = None\<rparr>, t)
              | Inr (newUser, t') \<Rightarrow>
                  (\<lparr>status = 201, success = True, message = ''Registrasi berhasil'',
                    body_user = Some (withoutSensitiveData newUser)\<rparr>, t'))))"

section \<open>Visitors (shared/schema.ts lines 26 to 41 and 65 to 75, server/storage.ts lines 169 to 210)\<close>

record visitor =
  visitor_id :: int
  ipAddress :: "string option"
  userAgent :: "string option"
  referrer :: "string option"
  language :: "string option"
  country :: "string option"
  city :: "string option"
  device :: "string option"
  browser :: "string option"
  os :: "string option"
  isUnique :: "bool option"
  visitCount :: "int option"
  lastVisit :: timestamp
  firstVisit :: timestamp

record visitor_table =
  visitors :: "visitor list"
  visitors_seq :: int

definition empty_visitors :: visitor_table where
  "empty_visitors = \<lparr>visitors = [], visitors_seq = 1\<rparr>"

text \<open>
  \<open>InsertVisitor\<close> is \<open>createInsertSchema(visitors).pick({...}).partial()\<close>: an object
  with the nine keys below and no other, each optional, each value a string or null.
  It is a map from the keys: \<open>d c = None\<close> when the key is missing (or \<open>undefined\<close>),
  \<open>Some None\<close> when it is null, \<open>Some (Some s)\<close> when it is the string \<open>s\<close>.
  \<open>Partial<InsertVisitor>\<close> is the same type.
\<close>

datatype column = IpAddress | UserAgent | Referrer | Language | Country | City | Device | Browser | Os

type_synonym insert_visitor = "column \<rightharpoonup> string option"

definition column_of :: "column \<Rightarrow> visitor \<Rightarrow> string option" where
  "column_of c v =
     (case c of IpAddress \<Rightarrow> ipAddress v | UserAgent \<Rightarrow> userAgent v | Referrer \<Rightarrow> referrer v
      | Language \<Rightarrow> language v | Country \<Rightarrow> country v | City \<Rightarrow> city v
      | Device \<Rightarrow> device v | Browser \<Rightarrow> browser v | Os \<Rightarrow> os v)"

text \<open>
  The widths of the \<open>varchar\<close> columns; \<open>text\<close> columns have none. PostgreSQL refuses a
  value wider than its column (error 22001), unless the characters beyond the width are
  all spaces: then it stores the value cut to the width.
\<close>

definition width :: "column \<Rightarrow> nat option" where
  "width c =
     (case c of IpAddress \<Rightarrow> Some 50 | UserAgent \<Rightarrow> None | Referrer \<Rightarrow> None
      | Language \<Rightarrow> Some 50 | Country \<Rightarrow> Some 100 | City \<Rightarrow> Some 100
      | Device \<Rightarrow> Some 50 | Browser \<Rightarrow> Some 50 | Os \<Rightarrow> Some 50)"

definition columns :: "column list" where
  "columns = [IpAddress, UserAgent, Referrer, Language, Country, City, Device, Browser, Os]"

definition fits :: "column \<Rightarrow> string \<Rightarrow> bool" where
  "fits c s = (case width c of None \<Rightarrow> True | Some n \<Rightarrow> length s \<le> n)"

definition over_wide :: "column \<Rightarrow> string \<Rightarrow> bool" where
  "over_wide c s =
     (case width c of
        None \<Rightarrow> False
      | Some n \<Rightarrow> n < length s \<and> \<not> list_all (\<lambda>ch. ch = CHR '' '') (drop n s))"

definition stored :: "column \<Rightarrow> string \<Rightarrow> string" where
  "stored c s = (case width c of None \<Rightarrow> s | Some n \<Rightarrow> take n s)"

definition too_long :: "insert_visitor \<Rightarrow> bool" where
  "too_long d =
     list_ex (\<lambda>c. case d c of Some (Some s) \<Rightarrow> over_wide c s | _ \<Rightarrow> False) columns"

datatype visitor_error = ValueTooLong | IntegerOutOfRange

definition int4_max :: int where
  "int4_max = 2147483647"

text \<open>
  drizzle's \<open>values\<close> gives a column whose key is missing its default (NULL for the nine
  columns); its \<open>set\<close> leaves such a column as it is. Both store null as NULL.
\<close>

definition inserted :: "insert_visitor \<Rightarrow> column \<Rightarrow> string option" where
  "inserted d c =
     (case d c of None \<Rightarrow> None | Some None \<Rightarrow> None | Some (Some s) \<Rightarrow> Some (stored c s))"

definition updated :: "insert_visitor \<Rightarrow> column \<Rightarrow> string option \<Rightarrow> string option" where
  "updated d c old =
     (case d c of None \<Rightarrow> old | Some None \<Rightarrow> None | Some (Some s) \<Rightarrow> Some (stored c s))"

text \<open>
  \<open>createVisitor\<close>: the insert raises, and adds no row, when a value is too long for its
  column. Otherwise \<open>id\<close> is the next sequence value and \<open>isUnique\<close>, \<open>visitCount\<close>,
  \<open>lastVisit\<close> and \<open>firstVisit\<close> get their defaults \<open>true\<close>, \<open>1\<close> and \<open>now()\<close>.
\<close>

definition createVisitor ::
  "timestamp \<Rightarrow> insert_visitor \<Rightarrow> visitor_table \<Rightarrow> visitor_error + (visitor \<times> visitor_table)" where
  "createVisitor now insertVisitor t =
     (if too_long insertVisitor then Inl ValueTooLong
      else let v = \<lparr>visitor_id = visitors_seq t,
               ipAddress = inserted insertVisitor IpAddress,
               userAgent = inserted insertVisitor UserAgent,
               referrer = inserted insertVisitor Referrer,
               language = inserted insertVisitor Language,
               country = inserted insertVisitor Country,
               city = inserted insertVisitor City,
               device = inserted insertVisitor Device,
               browser = inserted insertVisitor Browser,
               os = inserted insertVisitor Os,
               isUnique = Some True, visitCount = Some 1,
               lastVisit = now, firstVisit = now\<rparr>
           in Inr (v, \<lparr>visitors = visitors t @ [v], visitors_seq = visitors_seq t + 1\<rparr>))"

definition getVisitor :: "visitor_table \<Rightarrow> int \<Rightarrow> visitor option" where
  "getVisitor t i = find (\<lambda>v. visitor_id v = i) (visitors t)"

text \<open>
  \<open>getVisitorByIp\<close>: the select has no \<open>orderBy\<close> and \<open>ip_address\<close> is not unique, so
  which of the rows with the address comes first is the store's choice. \<open>pick\<close> is that
  choice: every number selects one of the matching rows, and every matching row is
  selected by some number.
\<close>

definition getVisitorByIp :: "nat \<Rightarrow> visitor_table \<Rightarrow> string \<Rightarrow> visitor option" where
  "getVisitorByIp pick t ip =
     (let matching = filter (\<lambda>v. ipAddress v = Some ip) (visitors t)
      in if matching = [] then None else Some (matching ! (pick mod length matching)))"

text \<open>
  The \<open>set\<close> clause of \<open>updateVisitor\<close>: the keys of \<open>visitorData\<close>, then \<open>lastVisit\<close>
  and \<open>visitCount\<close>. In SQL, \<open>visit_count + 1\<close> is NULL when \<open>visit_count\<close> is, and
  raises (error 22003) when the sum is beyond the range of \<open>integer\<close>.
\<close>

definition set_clause :: "timestamp \<Rightarrow> insert_visitor \<Rightarrow> visitor \<Rightarrow> visitor" where
  "set_clause now visitorData v =
     v\<lparr>ipAddress := updated visitorData IpAddress (ipAddress v),
       userAgent := updated visitorData UserAgent (userAgent v),
       referrer := updated visitorData Referrer (referrer v),
       language := updated visitorData Language (language v),
       country := updated visitorData Country (country v),
       city := updated visitorData City (city v),
       device := updated visitorData Device (device v),
       browser := updated visitorData Browser (browser v),
       os := updated visitorData Os (os v),
       lastVisit := now,
       visitCount := (case visitCount v of None \<Rightarrow> None | Some n \<Rightarrow> Some (n + 1))\<rparr>"

definition overflows :: "visitor \<Rightarrow> bool" where
  "overflows v = (case visitCount v of None \<Rightarrow> False | Some n \<Rightarrow> int4_max < n + 1)"

text \<open>
  \<open>updateVisitor\<close> raises, and changes no row, when a value of \<open>visitorData\<close> is too long
  for its column or the count of a row with the id cannot be increased. Otherwise it
  returns the first of the rows the statement returns: none (the JavaScript
  \<open>undefined\<close>) when no row has the id.
\<close>

definition updateVisitor ::
  "timestamp \<Rightarrow> int \<Rightarrow> insert_visitor \<Rightarrow> visitor_table
   \<Rightarrow> visitor_error + (visitor option \<times> visitor_table)" where
  "updateVisitor now i visitorData t =
     (if too_long visitorData then Inl ValueTooLong
      else if list_ex (\<lambda>v. visitor_id v = i \<and> overflows v) (visitors t) then Inl IntegerOutOfRange
      else let rows = map (\<lambda>v. if visitor_id v = i then set_clause now visitorData v else v)
                        (visitors t)
           in Inr (find (\<lambda>v. visitor_id v = i) rows, t\<lparr>visitors := rows\<rparr>))"

text \<open>
  Modelled from the spec: \<open>RecordVisit\<close>, the caller of \<open>getVisitorByIp\<close>,
  \<open>createVisitor\<close> and \<open>updateVisitor\<close>, which is not among the source files. Section 4.2
  of the specification: look the visitor up by the observation's IP address; if none is
  found (or the observation has no IP address) insert a new visitor from the observation;
  if one is found, update that row with the observation.
\<close>

definition recordVisit ::
  "nat \<Rightarrow> timestamp \<Rightarrow> insert_visitor \<Rightarrow> visitor_table
   \<Rightarrow> visitor_error + (visitor option \<times> visitor_table)" where
  "recordVisit pick now observation t =
     (let create = (case createVisitor now observation t of
                      Inl err \<Rightarrow> Inl err
                    | Inr (v, t') \<Rightarrow> Inr (Some v, t'))
      in case observation IpAddress of
           Some (Some ip) \<Rightarrow>
             (case getVisitorByIp pick t ip of
                None \<Rightarrow> create
              | Some existing \<Rightarrow> updateVisitor now (visitor_id existing) observation t)
         | _ \<Rightarrow> create)"

text \<open>
  Histories of the visitor table: the calls of \<open>createVisitor\<close> and \<open>updateVisitor\<close>
  made since the table was empty; a call that raises leaves the table as it is.
  \<open>updates_to i calls\<close> counts the calls of \<open>updateVisitor\<close> with id \<open>i\<close>, and
  \<open>updates_applied i calls t\<close> those of them that do not raise when the calls are made
  one after the other from the table \<open>t\<close>.
\<close>

datatype visitor_call =
  CreateVisitor timestamp insert_visitor
  | UpdateVisitor timestamp int insert_visitor

fun call :: "visitor_call \<Rightarrow> visitor_table \<Rightarrow> visitor_table" where
  "call (CreateVisitor now d) t =
     (case createVisitor now d t of Inl err \<Rightarrow> t | Inr (v, t') \<Rightarrow> t')"
| "call (UpdateVisitor now i d) t =
     (case updateVisitor now i d t of Inl err \<Rightarrow> t | Inr (v, t') \<Rightarrow> t')"

fun run :: "visitor_call list \<Rightarrow> visitor_table \<Rightarrow> visitor_table" where
  "run [] t = t"
| "run (c # cs) t = run cs (call c t)"

fun updates_to :: "int \<Rightarrow> visitor_call list \<Rightarrow> nat" where
  "updates_to i [] = 0"
| "updates_to i (CreateVisitor now d # cs) = updates_to i cs"
| "updates_to i (UpdateVisitor now j d # cs) = (if j = i then 1 else 0) + updates_to i cs"

fun raises :: "visitor_call \<Rightarrow> visitor_table \<Rightarrow> bool" where
  "raises (CreateVisitor now d) t = (case createVisitor now d t of Inl err \<Rightarrow> True | Inr r \<Rightarrow> False)"
| "raises (UpdateVisitor now i d) t = (case updateVisitor now i d t of Inl err \<Rightarrow> True | Inr r \<Rightarrow> False)"

fun updates_applied :: "int \<Rightarrow> visitor_call list \<Rightarrow> visitor_table \<Rightarrow> nat" where
  "updates_applied i [] t = 0"
| "updates_applied i (c # cs) t =
     (if raises c t then 0 else updates_to i [c]) + updates_applied i cs (call c t)"

text \<open>
  What holds of every table reached from the empty one: the ids are distinct and below
  the next sequence value, \<open>isUnique\<close> is true, \<open>visitCount\<close> is a number from 1 to the
  largest \<open>integer\<close>, and an IP address is no wider than its column.
\<close>

definition visitors_inv :: "visitor_table \<Rightarrow> bool" where
  "visitors_inv t =
     (distinct (map visitor_id (visitors t))
      \<and> (\<forall>v \<in> set (visitors t). visitor_id v < visitors_seq t \<and> isUnique v = Some True
             \<and> (\<exists>n. visitCount v = Some n \<and> 1 \<le> n \<and> n \<le> int4_max)
             \<and> (\<forall>ip. ipAddress v = Some ip \<longrightarrow> length ip \<le> 50)))"

section \<open>Visitor statistics (server/storage.ts lines 212 to 326)\<close>

text \<open>
  \<open>select count(*) from visitors [where ...]\<close> returns one row; \<open>result?.count || 0\<close>
  is its count.
\<close>

definition count_star :: "'a list \<Rightarrow> int" where
  "count_star rows = (let n = int (length rows) in if n = 0 then 0 else n)"

text \<open>
  \<open>select col, count(*) from visitors where col is not null group by col order by
  count(*) desc limit 10\<close>. The type of the key in a returned row is that of the column,
  \<open>string | null\<close>. Groups of equal count come in the order the store chooses; the model
  sorts the groups stably.
\<close>

fun non_null :: "'a option list \<Rightarrow> 'a list" where
  "non_null [] = []"
| "non_null (None # xs) = non_null xs"
| "non_null (Some x # xs) = x # non_null xs"

definition group_by_count :: "string list \<Rightarrow> (string option \<times> int) list" where
  "group_by_count ks = map (\<lambda>k. (Some k, int (count_list ks k))) (remdups ks)"

definition top10_raw :: "(visitor \<Rightarrow> string option) \<Rightarrow> visitor_table \<Rightarrow> (string option \<times> int) list" where
  "top10_raw col t =
     take 10 (sort_key (\<lambda>g. - snd g) (group_by_count (non_null (map col (visitors t)))))"

text \<open>\<open>item.country || "Unknown"\<close>: null and the empty string are falsy.\<close>

definition or_unknown :: "string option \<Rightarrow> string" where
  "or_unknown k = (case k of None \<Rightarrow> ''Unknown'' | Some s \<Rightarrow> if s = [] then ''Unknown'' else s)"

text \<open>
  The result of \<open>getVisitorStats\<close>, without \<open>todayVisitors\<close> and \<open>lastWeekVisitors\<close>:
  they depend on the time zones of the server and of the store.
\<close>

record visitor_stats =
  totalVisitors :: int
  uniqueVisitors :: int
  visitorsByCountry :: "(string \<times> int) list"
  visitorsByDevice :: "(string \<times> int) list"
  visitorsByBrowser :: "(string \<times> int) list"
  visitorsByOs :: "(string \<times> int) list"

definition getVisitorStats :: "visitor_table \<Rightarrow> visitor_stats" where
  "getVisitorStats t =
     \<lparr>totalVisitors = count_star (visitors t),
      uniqueVisitors = count_star (filter (\<lambda>v. isUnique v = Some True) (visitors t)),
      visitorsByCountry = map (\<lambda>item. (or_unknown (fst item), snd item)) (top10_raw country t),
      visitorsByDevice = map (\<lambda>item. (or_unknown (fst item), snd item)) (top10_raw device t),
      visitorsByBrowser = map (\<lambda>item. (or_unknown (fst item), snd item)) (top10_raw browser t),
      visitorsByOs = map (\<lambda>item. (or_unknown (fst item), snd item)) (top10_raw os t)\<rparr>"

text \<open>
  What a breakdown \<open>out\<close> has to do with the values of its column and with the rows
  \<open>raw\<close> that the query returns.
\<close>

definition breakdown_of ::
  "string option list \<Rightarrow> (string option \<times> int) list \<Rightarrow> (string \<times> int) list \<Rightarrow> bool" where
  "breakdown_of column_values raw out =
     (length raw \<le> 10 \<and> length out = length raw
      \<and> distinct (map fst raw)
      \<and> sorted_wrt (\<lambda>a b. snd b \<le> snd a) out
      \<and> (\<forall>j < length raw. \<exists>k.
            fst (raw ! j) = Some k
          \<and> snd (raw ! j) = int (count_list column_values (Some k))
          \<and> 1 \<le> snd (raw ! j)
          \<and> out ! j = (if k = [] then ''Unknown'' else k, snd (raw ! j))))"

section \<open>Sample data\<close>

text \<open>
  Theorems about every \<open>pbkdf2\<close> are run at concrete inputs with this function in its
  place: the bytes of the password followed by those of the salt.
\<close>

definition fixture_kdf :: pbkdf2 where
  "fixture_kdf p s i n d = map (\<lambda>c. of_nat (of_char c)) (p @ s)"

definition alice :: user where
  "alice = \<lparr>user_id = 1, username = ''alice'', email = ''alice@x.com'',
     password = hashPassword fixture_kdf ''secret1'' ''0102'', salt = ''0102'', role = ''user'',
     isActive = True, createdAt = 5, lastLogin = None\<rparr>"

definition bob :: user where
  "bob = \<lparr>user_id = 2, username = ''bob'', email = ''bob@x.com'',
     password = hashPassword fixture_kdf ''hunter2'' ''0a0b'', salt = ''0a0b'', role = ''user'',
     isActive = False, createdAt = 6, lastLogin = None\<rparr>"

definition observation_a :: insert_visitor where
  "observation_a = [IpAddress \<mapsto> Some ''10.0.0.1'', Country \<mapsto> Some ''US'', City \<mapsto> None]"

definition visitor_a :: visitor where
  "visitor_a = \<lparr>visitor_id = 1, ipAddress = Some ''10.0.0.1'', userAgent = None, referrer = None,
     language = None, country = Some ''US'', city = None, device = None, browser = None,
     os = None, isUnique = Some True, visitCount = Some 1, lastVisit = 100, firstVisit = 100\<rparr>"

definition visitor_b :: visitor where
  "visitor_b = \<lparr>visitor_id = 2, ipAddress = Some ''10.0.0.2'', userAgent = None, referrer = None,
     language = None, country = Some ''US'', city = None, device = None, browser = None,
     os = None, isUnique = Some False, visitCount = Some 4, lastVisit = 250, firstVisit = 150\<rparr>"

definition visitor_c :: visitor where
  "visitor_c = \<lparr>visitor_id = 3, ipAddress = Some ''10.0.0.3'', userAgent = None, referrer = None,
     language = None, country = Some ''DE'', city = None, device = None, browser = None,
     os = None, isUnique = Some True, visitCount = Some 1, lastVisit = 300, firstVisit = 300\<rparr>"

definition observation_b :: insert_visitor where
  "observation_b = [IpAddress \<mapsto> Some ''10.0.0.2'', Country \<mapsto> Some ''DE'']"

definition visitor_d :: visitor where
  "visitor_d = \<lparr>visitor_id = 2, ipAddress = Some ''10.0.0.2'', userAgent = None, referrer = None,
     language = None, country = Some ''DE'', city = None, device = None, browser = None,
     os = None, isUnique = Some True, visitCount = Some 1, lastVisit = 150, firstVisit = 150\<rparr>"

definition wide_language :: insert_visitor where
  "wide_language = [Language \<mapsto> Some (replicate 51 CHR ''a'')]"

definition observation_c :: insert_visitor where
  "observation_c = [IpAddress \<mapsto> Some ''10.0.0.3'', Country \<mapsto> Some ''DE'', Referrer \<mapsto> None]"

definition wide_observation :: insert_visitor where
  "wide_observation = [IpAddress \<mapsto> Some ''10.0.0.9'', Language \<mapsto> Some (replicate 51 CHR ''a'')]"

section \<open>Credential store: properties\<close>

text \<open>
  C7. \<open>hashPassword\<close> is a function of the password and the salt alone (equal inputs give
  equal outputs), and \<open>verifyPassword password salt storedHash\<close> is true exactly when
  \<open>storedHash\<close> is the hash of that password with that salt; in particular a password
  verifies against its own hash.
\<close>

theorem verifyPassword_iff_hashPassword:
  "(verifyPassword kdf pw slt storedHash \<longleftrightarrow> storedHash = hashPassword kdf pw slt)
   \<and> verifyPassword kdf pw slt (hashPassword kdf pw slt)
   \<and> (\<forall>pw' slt'. pw' = pw \<and> slt' = slt \<longrightarrow> hashPassword kdf pw' slt' = hashPassword kdf pw slt)"
  by (auto simp: verifyPassword_def)

theorem verifyPassword_iff_hashPassword_witness:
  "verifyPassword fixture_kdf ''secret1'' ''ab''
     (hashPassword fixture_kdf ''secret1'' ''ab'')
   \<and> hashPassword fixture_kdf ''secret1'' ''ab''
       = ''736563726574316162''"
  using verifyPassword_iff_hashPassword
    [of fixture_kdf "''secret1''" "''ab''" "''x''"]
  by (simp add: hashPassword_def fixture_kdf_def toString_hex_def hex_digit_def)

section \<open>Users: properties\<close>

lemma find_unique_username:
  "distinct (map username xs) \<Longrightarrow> u \<in> set xs \<Longrightarrow> find (\<lambda>x. username x = username u) xs = Some u"
  by (induction xs) (auto simp: image_iff)

lemma find_none_append:
  "find P xs = None \<Longrightarrow> find P (xs @ [y]) = (if P y then Some y else None)"
  by (induction xs) (auto split: if_splits)

lemma createUser_keeps_usernames_distinct:
  "distinct (map username (users t)) \<Longrightarrow> createUser kdf rnd now uname mail pw rl t = Inr (u, t')
   \<Longrightarrow> distinct (map username (users t'))"
  by (auto simp: createUser_def Let_def list_ex_iff split: if_splits)

lemma updateUserPassword_keeps_usernames:
  "map username (users (snd (updateUserPassword kdf rnd i pw t))) = map username (users t)"
  by (auto simp: updateUserPassword_def Let_def split: option.splits)

lemma createUser_fresh:
  assumes "\<forall>x \<in> set (users t). username x \<noteq> uname \<and> email x \<noteq> mail"
  shows "\<exists>u t'. createUser kdf rnd now uname mail pw rl t = Inr (u, t')
           \<and> username u = uname \<and> email u = mail \<and> isActive u
           \<and> salt u = generateSalt rnd \<and> password u = hashPassword kdf pw (generateSalt rnd)
           \<and> users t' = users t @ [u]
           \<and> getUserByUsername t' uname = Some u"
proof -
  define u where "u = \<lparr>user_id = users_seq t, username = uname, email = mail,
      password = hashPassword kdf pw (generateSalt rnd), salt = generateSalt rnd,
      role = (case rl of None \<Rightarrow> ''user'' | Some r \<Rightarrow> if r = [] then ''user'' else r),
      isActive = True, createdAt = now, lastLogin = None\<rparr>"
  define t' where "t' = \<lparr>users = users t @ [u], users_seq = users_seq t + 1\<rparr>"
  have created: "createUser kdf rnd now uname mail pw rl t = Inr (u, t')"
    using assms by (simp add: createUser_def Let_def list_ex_iff u_def t'_def)
  have "find (\<lambda>x. username x = uname) (users t) = None"
    using assms by (simp add: find_None_iff)
  then have found: "getUserByUsername t' uname = Some u"
    by (simp add: getUserByUsername_def t'_def find_none_append u_def)
  show ?thesis
    using created found by (simp add: u_def t'_def)
qed

lemma verifyUser_after_createUser:
  assumes "\<forall>x \<in> set (users t). username x \<noteq> uname \<and> email x \<noteq> mail"
  shows "\<exists>u t'. createUser kdf rnd now uname mail pw rl t = Inr (u, t')
           \<and> isActive u \<and> salt u = generateSalt rnd
           \<and> (\<forall>pw'. verifyUser kdf t' uname pw' =
                 (if hashPassword kdf pw' (salt u) = hashPassword kdf pw (salt u)
                  then Some u else None))"
proof -
  from createUser_fresh [OF assms, of kdf rnd now pw rl]
  obtain u t' where c: "createUser kdf rnd now uname mail pw rl t = Inr (u, t')"
    and u: "isActive u" "salt u = generateSalt rnd"
      "password u = hashPassword kdf pw (generateSalt rnd)"
    and found: "getUserByUsername t' uname = Some u"
    by blast
  have "verifyUser kdf t' uname pw' =
      (if hashPassword kdf pw' (salt u) = hashPassword kdf pw (salt u) then Some u else None)"
    for pw'
    using found u by (simp add: verifyUser_def verifyPassword_def)
  with c u show ?thesis by blast
qed

lemma finite_hashes: "keylen_ok kdf \<Longrightarrow> finite (range (\<lambda>pw. hashPassword kdf pw slt))"
proof -
  assume k: "keylen_ok kdf"
  have "finite {bs :: bytes. set bs \<subseteq> UNIV \<and> length bs = 64}"
    by (rule finite_lists_length_eq) simp
  then have fin: "finite (toString_hex ` {bs :: bytes. length bs = 64})" by simp
  have "range (\<lambda>pw. hashPassword kdf pw slt) \<subseteq> toString_hex ` {bs :: bytes. length bs = 64}"
    using k by (auto simp: hashPassword_def keylen_ok_def)
  then show ?thesis using fin by (rule finite_subset)
qed

text \<open>
  C8. \<open>updateUserPassword\<close> returns false and leaves the table as it is when no user
  has the id. When a user has the id it returns true, and in the new table that user's
  salt is the salt generated at this call and its password is the hash of the new password
  with that salt; every other field and every other row is unchanged.
\<close>

theorem updateUserPassword_result:
  "((\<forall>u \<in> set (users t). user_id u \<noteq> userId) \<longrightarrow>
      updateUserPassword kdf rnd userId newPassword t = (False, t))
   \<and> ((\<exists>u \<in> set (users t). user_id u = userId) \<longrightarrow>
      (\<exists>t'. updateUserPassword kdf rnd userId newPassword t = (True, t')
         \<and> users_seq t' = users_seq t
         \<and> length (users t') = length (users t)
         \<and> (\<forall>k < length (users t).
              (user_id (users t ! k) = userId \<longrightarrow>
                 users t' ! k = (users t ! k)
                   \<lparr>password := hashPassword kdf newPassword (generateSalt rnd),
                    salt := generateSalt rnd\<rparr>)
            \<and> (user_id (users t ! k) \<noteq> userId \<longrightarrow> users t' ! k = users t ! k))))"
proof (intro conjI impI)
  assume "\<forall>u \<in> set (users t). user_id u \<noteq> userId"
  then have "getUser t userId = None"
    by (simp add: getUser_def find_None_iff)
  then show "updateUserPassword kdf rnd userId newPassword t = (False, t)"
    by (simp add: updateUserPassword_def)
next
  assume "\<exists>u \<in> set (users t). user_id u = userId"
  then have "find (\<lambda>u. user_id u = userId) (users t) \<noteq> None"
    by (auto simp: find_None_iff)
  then obtain u where "getUser t userId = Some u"
    by (auto simp: getUser_def)
  then show "\<exists>t'. updateUserPassword kdf rnd userId newPassword t = (True, t')
         \<and> users_seq t' = users_seq t
         \<and> length (users t') = length (users t)
         \<and> (\<forall>k < length (users t).
              (user_id (users t ! k) = userId \<longrightarrow>
                 users t' ! k = (users t ! k)
                   \<lparr>password := hashPassword kdf newPassword (generateSalt rnd),
                    salt := generateSalt rnd\<rparr>)
            \<and> (user_id (users t ! k) \<noteq> userId \<longrightarrow> users t' ! k = users t ! k))"
    by (simp add: updateUserPassword_def Let_def)
qed

theorem updateUserPassword_result_witness:
  "updateUserPassword fixture_kdf [171] 7 ''secret2'' \<lparr>users = [alice], users_seq = 2\<rparr>
     = (False, \<lparr>users = [alice], users_seq = 2\<rparr>)
   \<and> (\<exists>t'. updateUserPassword fixture_kdf [171] 1 ''secret2'' \<lparr>users = [alice], users_seq = 2\<rparr>
           = (True, t')
         \<and> users t' ! 0 = alice\<lparr>password := ''736563726574326162'', salt := ''ab''\<rparr>)"
proof -
  let ?t = "\<lparr>users = [alice], users_seq = 2\<rparr>"
  have absent: "\<forall>u \<in> set (users ?t). user_id u \<noteq> 7"
    by (simp add: alice_def)
  have present: "\<exists>u \<in> set (users ?t). user_id u = 1"
    by (simp add: alice_def)
  have new: "hashPassword fixture_kdf ''secret2'' ''ab'' = ''736563726574326162''"
    "generateSalt [171] = ''ab''"
    by (simp_all add: hashPassword_def generateSalt_def fixture_kdf_def toString_hex_def hex_digit_def)
  from updateUserPassword_result [of ?t 7 fixture_kdf "[171]" "''secret2''"] absent
  have "updateUserPassword fixture_kdf [171] 7 ''secret2'' ?t = (False, ?t)"
    by blast
  moreover
  from updateUserPassword_result [of ?t 1 fixture_kdf "[171]" "''secret2''"] present
  obtain t' where "updateUserPassword fixture_kdf [171] 1 ''secret2'' ?t = (True, t')"
    and "\<forall>k < length (users ?t).
           (user_id (users ?t ! k) = 1 \<longrightarrow>
              users t' ! k = (users ?t ! k)
                \<lparr>password := hashPassword fixture_kdf ''secret2'' (generateSalt [171]),
                 salt := generateSalt [171]\<rparr>)"
    by blast
  then have "updateUserPassword fixture_kdf [171] 1 ''secret2'' ?t = (True, t')
      \<and> users t' ! 0 = alice\<lparr>password := ''736563726574326162'', salt := ''ab''\<rparr>"
    by (simp add: new alice_def)
  ultimately show ?thesis by blast
qed


text \<open>
  C5. \<open>verifyUser\<close> returns a user or nothing, never an error. Usernames are unique in
  the table (the \<open>unique()\<close> constraint). It returns nothing when no user has the
  name, when the user of that name is inactive (whatever the password), and when the
  password does not verify against the stored hash and salt; it returns the user when the
  user is active and the password verifies, and it returns a user only then.
\<close>

theorem verifyUser_outcomes:
  assumes "distinct (map username (users t))"
  shows "(\<not> list_ex (\<lambda>u. username u = name) (users t) \<longrightarrow> verifyUser kdf t name pw = None)
    \<and> (\<forall>u \<in> set (users t). username u = name \<longrightarrow>
          (\<not> isActive u \<longrightarrow> verifyUser kdf t name pw = None)
        \<and> (\<not> verifyPassword kdf pw (salt u) (password u) \<longrightarrow> verifyUser kdf t name pw = None)
        \<and> (isActive u \<and> verifyPassword kdf pw (salt u) (password u)
             \<longrightarrow> verifyUser kdf t name pw = Some u))
    \<and> (\<forall>u. verifyUser kdf t name pw = Some u \<longrightarrow>
          u \<in> set (users t) \<and> username u = name \<and> isActive u
          \<and> verifyPassword kdf pw (salt u) (password u))"
proof (intro conjI impI ballI allI)
  assume "\<not> list_ex (\<lambda>u. username u = name) (users t)"
  then have "getUserByUsername t name = None"
    by (simp add: getUserByUsername_def find_None_iff list_ex_iff)
  then show "verifyUser kdf t name pw = None"
    by (simp add: verifyUser_def)
next
  fix u assume u: "u \<in> set (users t)" "username u = name"
  have found: "getUserByUsername t name = Some u"
    using find_unique_username [OF assms u(1)] u(2) by (simp add: getUserByUsername_def)
  { assume "\<not> isActive u"
    then show "verifyUser kdf t name pw = None"
      using found by (simp add: verifyUser_def) }
  { assume "\<not> verifyPassword kdf pw (salt u) (password u)"
    then show "verifyUser kdf t name pw = None"
      using found by (simp add: verifyUser_def) }
  { assume "isActive u \<and> verifyPassword kdf pw (salt u) (password u)"
    then show "verifyUser kdf t name pw = Some u"
      using found by (simp add: verifyUser_def) }
next
  fix u assume v: "verifyUser kdf t name pw = Some u"
  then obtain w where w: "getUserByUsername t name = Some w"
    by (auto simp: verifyUser_def split: option.splits)
  with v have eq: "w = u" and act: "isActive u" and ok: "verifyPassword kdf pw (salt u) (password u)"
    by (auto simp: verifyUser_def Let_def split: if_splits)
  from w eq have "find (\<lambda>x. username x = name) (users t) = Some u"
    by (simp add: getUserByUsername_def)
  then have "u \<in> set (users t)" "username u = name"
    by (auto simp: find_Some_iff)
  then show "u \<in> set (users t)" "username u = name" "isActive u"
    "verifyPassword kdf pw (salt u) (password u)"
    using act ok by simp_all
qed

theorem verifyUser_outcomes_witness:
  "distinct (map username (users \<lparr>users = [alice, bob], users_seq = 3\<rparr>))
   \<and> verifyUser fixture_kdf \<lparr>users = [alice, bob], users_seq = 3\<rparr> ''carol'' ''secret1'' = None
   \<and> verifyUser fixture_kdf \<lparr>users = [alice, bob], users_seq = 3\<rparr> ''bob'' ''hunter2'' = None
   \<and> verifyUser fixture_kdf \<lparr>users = [alice, bob], users_seq = 3\<rparr> ''alice'' ''secret2'' = None
   \<and> verifyUser fixture_kdf \<lparr>users = [alice, bob], users_seq = 3\<rparr> ''alice'' ''secret1'' = Some alice"
proof -
  let ?t = "\<lparr>users = [alice, bob], users_seq = 3\<rparr>"
  have d: "distinct (map username (users ?t))"
    by (simp add: alice_def bob_def)
  have carol: "\<not> list_ex (\<lambda>u. username u = ''carol'') (users ?t)"
    by (simp add: alice_def bob_def)
  have bob: "bob \<in> set (users ?t)" "username bob = ''bob''" "\<not> isActive bob"
    "verifyPassword fixture_kdf ''hunter2'' (salt bob) (password bob)"
    by (simp_all add: bob_def verifyPassword_def)
  have alice: "alice \<in> set (users ?t)" "username alice = ''alice''" "isActive alice"
    "verifyPassword fixture_kdf ''secret1'' (salt alice) (password alice)"
    "\<not> verifyPassword fixture_kdf ''secret2'' (salt alice) (password alice)"
    by (simp_all add: alice_def verifyPassword_def hashPassword_def fixture_kdf_def
        toString_hex_def hex_digit_def)
  from verifyUser_outcomes [OF d, of "''carol''" fixture_kdf "''secret1''"] carol
  have "verifyUser fixture_kdf ?t ''carol'' ''secret1'' = None" by blast
  moreover from verifyUser_outcomes [OF d, of "''bob''" fixture_kdf "''hunter2''"] bob
  have "verifyUser fixture_kdf ?t ''bob'' ''hunter2'' = None" by blast
  moreover from verifyUser_outcomes [OF d, of "''alice''" fixture_kdf "''secret2''"] alice
  have "verifyUser fixture_kdf ?t ''alice'' ''secret2'' = None" by blast
  moreover from verifyUser_outcomes [OF d, of "''alice''" fixture_kdf "''secret1''"] alice
  have "verifyUser fixture_kdf ?t ''alice'' ''secret1'' = Some alice" by blast
  ultimately show ?thesis using d by blast
qed

text \<open>
  C6, as amended. When the username and the email are not taken, \<open>createUser\<close> succeeds,
  the new user is active, and \<open>verifyUser\<close> with the same username and password returns
  that user. With another password \<open>verifyUser\<close> returns nothing when the hash of that
  password under the user's salt differs from the stored hash, and returns the user when
  the two hashes are equal.
\<close>

theorem createUser_then_verifyUser:
  assumes "\<forall>x \<in> set (users t). username x \<noteq> uname \<and> email x \<noteq> mail"
  shows "\<exists>u t'. createUser kdf rnd now uname mail pw rl t = Inr (u, t')
           \<and> isActive u
           \<and> verifyUser kdf t' uname pw = Some u
           \<and> (\<forall>pw'. hashPassword kdf pw' (salt u) \<noteq> hashPassword kdf pw (salt u)
                 \<longrightarrow> verifyUser kdf t' uname pw' = None)
           \<and> (\<forall>pw'. hashPassword kdf pw' (salt u) = hashPassword kdf pw (salt u)
                 \<longrightarrow> verifyUser kdf t' uname pw' = Some u)"
proof -
  from verifyUser_after_createUser [OF assms, of kdf rnd now pw rl]
  obtain u t' where c: "createUser kdf rnd now uname mail pw rl t = Inr (u, t')"
    and a: "isActive u"
    and v: "\<And>pw'. verifyUser kdf t' uname pw' =
        (if hashPassword kdf pw' (salt u) = hashPassword kdf pw (salt u) then Some u else None)"
    by blast
  have "verifyUser kdf t' uname pw = Some u"
    using v [of pw] by simp
  moreover have "\<forall>pw'. hashPassword kdf pw' (salt u) \<noteq> hashPassword kdf pw (salt u)
                 \<longrightarrow> verifyUser kdf t' uname pw' = None"
    using v by simp
  moreover have "\<forall>pw'. hashPassword kdf pw' (salt u) = hashPassword kdf pw (salt u)
                 \<longrightarrow> verifyUser kdf t' uname pw' = Some u"
    using v by simp
  ultimately show ?thesis using c a by blast
qed

theorem createUser_then_verifyUser_witness:
  "\<exists>u t'. createUser fixture_kdf [1, 2] 5 ''alice'' ''alice@x.com'' ''secret1'' None empty_users
             = Inr (u, t')
      \<and> u = alice
      \<and> verifyUser fixture_kdf t' ''alice'' ''secret1'' = Some u
      \<and> verifyUser fixture_kdf t' ''alice'' ''secret2'' = None"
proof -
  have fresh: "\<forall>x \<in> set (users empty_users). username x \<noteq> ''alice'' \<and> email x \<noteq> ''alice@x.com''"
    by (simp add: empty_users_def)
  from createUser_then_verifyUser [OF fresh, of fixture_kdf "[1, 2]" 5 "''secret1''" None]
  obtain u t' where
    c: "createUser fixture_kdf [1, 2] 5 ''alice'' ''alice@x.com'' ''secret1'' None empty_users = Inr (u, t')"
    and v: "verifyUser fixture_kdf t' ''alice'' ''secret1'' = Some u"
    and w: "\<And>pw'. hashPassword fixture_kdf pw' (salt u) \<noteq> hashPassword fixture_kdf ''secret1'' (salt u)
                 \<Longrightarrow> verifyUser fixture_kdf t' ''alice'' pw' = None"
    by blast
  from c have u: "u = alice"
    by (simp add: createUser_def Let_def empty_users_def alice_def generateSalt_def
        toString_hex_def hex_digit_def)
  have "hashPassword fixture_kdf ''secret2'' (salt u) \<noteq> hashPassword fixture_kdf ''secret1'' (salt u)"
    by (simp add: hashPassword_def fixture_kdf_def toString_hex_def hex_digit_def)
  from w [OF this] c v u show ?thesis by blast
qed

text \<open>
  C6 as stated says that after \<open>createUser\<close> every other password is refused. No key
  derivation with a 64-byte result can do that: there are infinitely many passwords and
  finitely many hashes, so two passwords share a hash under the salt of the new user, and
  each of them logs in to the account created with the other.
\<close>

theorem verifyUser_other_password_counterexample:
  "\<not> (\<exists>kdf. keylen_ok kdf \<and>
        (\<forall>pw pw'. pw' \<noteq> pw \<longrightarrow>
           (case createUser kdf (replicate 16 0) 0 ''alice'' ''alice@x.com'' pw None empty_users of
              Inl err \<Rightarrow> False
            | Inr (u, t') \<Rightarrow> verifyUser kdf t' ''alice'' pw' = None)))"
proof
  assume "\<exists>kdf. keylen_ok kdf \<and>
        (\<forall>pw pw'. pw' \<noteq> pw \<longrightarrow>
           (case createUser kdf (replicate 16 0) 0 ''alice'' ''alice@x.com'' pw None empty_users of
              Inl err \<Rightarrow> False
            | Inr (u, t') \<Rightarrow> verifyUser kdf t' ''alice'' pw' = None))"
  then obtain kdf where k: "keylen_ok kdf"
    and claim: "\<And>pw pw'. pw' \<noteq> pw \<Longrightarrow>
           (case createUser kdf (replicate 16 0) 0 ''alice'' ''alice@x.com'' pw None empty_users of
              Inl err \<Rightarrow> False
            | Inr (u, t') \<Rightarrow> verifyUser kdf t' ''alice'' pw' = None)"
    by blast
  define slt where "slt = generateSalt (replicate 16 0)"
  have differ: "hashPassword kdf pw' slt \<noteq> hashPassword kdf pw slt" if "pw' \<noteq> pw" for pw pw'
  proof
    assume same: "hashPassword kdf pw' slt = hashPassword kdf pw slt"
    have fresh: "\<forall>x \<in> set (users empty_users). username x \<noteq> ''alice'' \<and> email x \<noteq> ''alice@x.com''"
      by (simp add: empty_users_def)
    from verifyUser_after_createUser [OF fresh, of kdf "replicate 16 0" 0 pw None]
    obtain u t' where
      c: "createUser kdf (replicate 16 0) 0 ''alice'' ''alice@x.com'' pw None empty_users = Inr (u, t')"
      and s: "salt u = slt"
      and w: "\<And>q. verifyUser kdf t' ''alice'' q =
                 (if hashPassword kdf q (salt u) = hashPassword kdf pw (salt u) then Some u else None)"
      unfolding slt_def by blast
    from w [of pw'] same s have "verifyUser kdf t' ''alice'' pw' = Some u" by simp
    moreover from claim [OF that] c have "verifyUser kdf t' ''alice'' pw' = None" by simp
    ultimately show False by simp
  qed
  then have "inj (\<lambda>pw. hashPassword kdf pw slt)"
    by (auto simp: inj_on_def)
  with finite_hashes [OF k, of slt] have "finite (UNIV :: string set)"
    by (metis finite_imageD)
  then show False by (simp add: infinite_UNIV_listI)
qed

text \<open>
  C9. For a registration request with all three fields present: when the username is
  taken the response is 400 with the message "Username sudah digunakan", when only the
  email is taken it is 400 with "Email sudah digunakan", and the table is unchanged. A
  request with a missing field gets 400 with "Username, email, dan password harus diisi",
  a different message. After a successful registration (201), a second request with the
  same username gets the username conflict response.
\<close>

theorem register_conflict:
  assumes "n \<noteq> []" and "e \<noteq> []" and "p \<noteq> []"
  shows "(list_ex (\<lambda>u. username u = n) (users t) \<longrightarrow>
            register kdf rnd now (Some n) (Some e) (Some p) t =
              (\<lparr>status = 400, success = False, message = ''Username sudah digunakan'',
                body_user = None\<rparr>, t))
    \<and> (\<not> list_ex (\<lambda>u. username u = n) (users t) \<and> list_ex (\<lambda>u. email u = e) (users t) \<longrightarrow>
            register kdf rnd now (Some n) (Some e) (Some p) t =
              (\<lparr>status = 400, success = False, message = ''Email sudah digunakan'',
                body_user = None\<rparr>, t))
    \<and> (\<forall>bu be bp rnd' now' t'. falsy bu \<or> falsy be \<or> falsy bp \<longrightarrow>
            register kdf rnd' now' bu be bp t' =
              (\<lparr>status = 400, success = False,
                message = ''Username, email, dan password harus diisi'', body_user = None\<rparr>, t')
          \<and> message (fst (register kdf rnd' now' bu be bp t')) \<noteq> ''Username sudah digunakan''
          \<and> message (fst (register kdf rnd' now' bu be bp t')) \<noteq> ''Email sudah digunakan'')
    \<and> (\<not> list_ex (\<lambda>u. username u = n) (users t) \<and> \<not> list_ex (\<lambda>u. email u = e) (users t) \<longrightarrow>
          (\<exists>r1 t1. register kdf rnd now (Some n) (Some e) (Some p) t = (r1, t1)
             \<and> status r1 = 201 \<and> success r1
             \<and> (\<forall>rnd2 now2 e2 p2. e2 \<noteq> [] \<and> p2 \<noteq> [] \<longrightarrow>
                  register kdf rnd2 now2 (Some n) (Some e2) (Some p2) t1 =
                    (\<lparr>status = 400, success = False, message = ''Username sudah digunakan'',
                      body_user = None\<rparr>, t1))))"
proof (intro conjI impI allI)
  assume "list_ex (\<lambda>u. username u = n) (users t)"
  then have "getUserByUsername t n \<noteq> None"
    by (auto simp: getUserByUsername_def find_None_iff list_ex_iff)
  then show "register kdf rnd now (Some n) (Some e) (Some p) t =
              (\<lparr>status = 400, success = False, message = ''Username sudah digunakan'',
                body_user = None\<rparr>, t)"
    using assms by (auto simp: register_def falsy_def)
next
  assume "\<not> list_ex (\<lambda>u. username u = n) (users t) \<and> list_ex (\<lambda>u. email u = e) (users t)"
  then have "getUserByUsername t n = None" "getUserByEmail t e \<noteq> None"
    by (auto simp: getUserByUsername_def getUserByEmail_def find_None_iff list_ex_iff)
  then show "register kdf rnd now (Some n) (Some e) (Some p) t =
              (\<lparr>status = 400, success = False, message = ''Email sudah digunakan'',
                body_user = None\<rparr>, t)"
    using assms by (auto simp: register_def falsy_def)
next
  fix bu be bp rnd' now' t'
  assume f: "falsy bu \<or> falsy be \<or> falsy bp"
  then show v: "register kdf rnd' now' bu be bp t' =
              (\<lparr>status = 400, success = False,
                message = ''Username, email, dan password harus diisi'', body_user = None\<rparr>, t')"
    by (simp add: register_def)
  show "message (fst (register kdf rnd' now' bu be bp t')) \<noteq> ''Username sudah digunakan''"
    by (simp add: v)
  show "message (fst (register kdf rnd' now' bu be bp t')) \<noteq> ''Email sudah digunakan''"
    by (simp add: v)
next
  assume "\<not> list_ex (\<lambda>u. username u = n) (users t) \<and> \<not> list_ex (\<lambda>u. email u = e) (users t)"
  then have fresh: "\<forall>x \<in> set (users t). username x \<noteq> n \<and> email x \<noteq> e"
    by (auto simp: list_ex_iff)
  then have none: "getUserByUsername t n = None" "getUserByEmail t e = None"
    by (simp_all add: getUserByUsername_def getUserByEmail_def find_None_iff)
  from createUser_fresh [OF fresh, of kdf rnd now p None]
  obtain u t1 where c: "createUser kdf rnd now n e p None t = Inr (u, t1)"
    and found: "getUserByUsername t1 n = Some u"
    by blast
  have first: "register kdf rnd now (Some n) (Some e) (Some p) t =
      (\<lparr>status = 201, success = True, message = ''Registrasi berhasil'',
        body_user = Some (withoutSensitiveData u)\<rparr>, t1)"
    using assms none c by (simp add: register_def falsy_def)
  have second: "register kdf rnd2 now2 (Some n) (Some e2) (Some p2) t1 =
      (\<lparr>status = 400, success = False, message = ''Username sudah digunakan'',
        body_user = None\<rparr>, t1)" if "e2 \<noteq> [] \<and> p2 \<noteq> []" for rnd2 now2 e2 p2
    using assms(1) that found by (simp add: register_def falsy_def)
  show "\<exists>r1 t1. register kdf rnd now (Some n) (Some e) (Some p) t = (r1, t1)
             \<and> status r1 = 201 \<and> success r1
             \<and> (\<forall>rnd2 now2 e2 p2. e2 \<noteq> [] \<and> p2 \<noteq> [] \<longrightarrow>
                  register kdf rnd2 now2 (Some n) (Some e2) (Some p2) t1 =
                    (\<lparr>status = 400, success = False, message = ''Username sudah digunakan'',
                      body_user = None\<rparr>, t1))"
    using first second by simp
qed

theorem register_conflict_witness:
  "\<exists>r1 t1. register fixture_kdf [1, 2] 5 (Some ''alice'') (Some ''alice@x.com'') (Some ''secret1'')
              empty_users = (r1, t1)
     \<and> status r1 = 201
     \<and> register fixture_kdf [3, 4] 6 (Some ''alice'') (Some ''other@x.com'') (Some ''secret9'') t1
         = (\<lparr>status = 400, success = False, message = ''Username sudah digunakan'',
             body_user = None\<rparr>, t1)
     \<and> register fixture_kdf [3, 4] 6 (Some ''alice'') None (Some ''secret9'') t1
         = (\<lparr>status = 400, success = False,
              message = ''Username, email, dan password harus diisi'', body_user = None\<rparr>, t1)"
proof -
  have ne: "''alice'' \<noteq> []" "''alice@x.com'' \<noteq> []" "''secret1'' \<noteq> []" by simp_all
  have fresh: "\<not> list_ex (\<lambda>u. username u = ''alice'') (users empty_users)
      \<and> \<not> list_ex (\<lambda>u. email u = ''alice@x.com'') (users empty_users)"
    by (simp add: empty_users_def)
  note r = register_conflict [OF ne, of empty_users fixture_kdf "[1, 2]" 5]
  note scenario = r [THEN conjunct2, THEN conjunct2, THEN conjunct2, THEN mp, OF fresh]
  note validation = r [THEN conjunct2, THEN conjunct2, THEN conjunct1]
  from scenario obtain r1 t1 where
    first: "register fixture_kdf [1, 2] 5 (Some ''alice'') (Some ''alice@x.com'')
        (Some ''secret1'') empty_users = (r1, t1)"
    and created: "status r1 = 201"
    and second: "\<forall>rnd2 now2 e2 p2. e2 \<noteq> [] \<and> p2 \<noteq> [] \<longrightarrow>
        register fixture_kdf rnd2 now2 (Some ''alice'') (Some e2) (Some p2) t1 =
          (\<lparr>status = 400, success = False, message = ''Username sudah digunakan'',
            body_user = None\<rparr>, t1)"
    by (elim exE conjE)
  have ne2: "''other@x.com'' \<noteq> [] \<and> ''secret9'' \<noteq> []" by simp
  note conflict = second [THEN spec, THEN spec, THEN spec, THEN spec, THEN mp, OF ne2,
      of "[3, 4]" 6]
  have missing: "falsy (Some ''alice'') \<or> falsy None \<or> falsy (Some ''secret9'')"
    by (simp add: falsy_def)
  note invalid = validation [THEN spec, THEN spec, THEN spec, THEN spec, THEN spec, THEN spec,
      THEN mp, OF missing, THEN conjunct1, of "[3, 4]" 6 t1]
  show ?thesis
    by (intro exI conjI) (rule first, rule created, rule conflict, rule invalid)
qed

section \<open>Visitors: properties\<close>

lemma set_clause_fields:
  "visitor_id (set_clause now d v) = visitor_id v"
  "isUnique (set_clause now d v) = isUnique v"
  "firstVisit (set_clause now d v) = firstVisit v"
  "lastVisit (set_clause now d v) = now"
  "visitCount (set_clause now d v) = (case visitCount v of None \<Rightarrow> None | Some n \<Rightarrow> Some (n + 1))"
  "ipAddress (set_clause now d v) = updated d IpAddress (ipAddress v)"
  by (simp_all add: set_clause_def)

lemma map_update_ids:
  "map visitor_id (map (\<lambda>v. if visitor_id v = i then set_clause now d v else v) xs)
     = map visitor_id xs"
  by (induction xs) (simp_all add: set_clause_fields)

lemma stored_ip_length: "length (stored IpAddress s) \<le> 50"
  by (simp add: stored_def width_def)

lemma stored_fits: "fits c s \<Longrightarrow> stored c s = s"
  by (simp add: fits_def stored_def split: option.splits)

lemma over_wide_not_fits: "over_wide c s \<Longrightarrow> \<not> fits c s"
  by (auto simp: over_wide_def fits_def split: option.splits)

lemma updated_ip_length:
  assumes "\<forall>ip. old = Some ip \<longrightarrow> length ip \<le> 50" and "updated d IpAddress old = Some ip"
  shows "length ip \<le> 50"
  using assms stored_ip_length by (auto simp: updated_def split: option.splits)

lemma visitors_inv_empty: "visitors_inv empty_visitors"
  by (simp add: visitors_inv_def empty_visitors_def)

lemma createVisitor_Inr:
  "createVisitor now d t = Inr (v, t') \<longleftrightarrow>
     \<not> too_long d \<and> v = \<lparr>visitor_id = visitors_seq t,
               ipAddress = inserted d IpAddress, userAgent = inserted d UserAgent,
               referrer = inserted d Referrer, language = inserted d Language,
               country = inserted d Country, city = inserted d City,
               device = inserted d Device, browser = inserted d Browser, os = inserted d Os,
               isUnique = Some True, visitCount = Some 1, lastVisit = now, firstVisit = now\<rparr>
     \<and> t' = \<lparr>visitors = visitors t @ [v], visitors_seq = visitors_seq t + 1\<rparr>"
  by (auto simp: createVisitor_def Let_def)

lemma createVisitor_Inl: "createVisitor now d t = Inl e \<longleftrightarrow> too_long d \<and> e = ValueTooLong"
  by (auto simp: createVisitor_def Let_def)

lemma updateVisitor_Inr:
  "updateVisitor now i d t = Inr (r, t') \<longleftrightarrow>
     \<not> too_long d \<and> \<not> list_ex (\<lambda>v. visitor_id v = i \<and> overflows v) (visitors t)
     \<and> r = find (\<lambda>v. visitor_id v = i)
              (map (\<lambda>v. if visitor_id v = i then set_clause now d v else v) (visitors t))
     \<and> t' = t\<lparr>visitors := map (\<lambda>v. if visitor_id v = i then set_clause now d v else v) (visitors t)\<rparr>"
  by (auto simp: updateVisitor_def Let_def)

lemma updateVisitor_Inl:
  "(\<exists>e. updateVisitor now i d t = Inl e) \<longleftrightarrow>
     too_long d \<or> list_ex (\<lambda>v. visitor_id v = i \<and> overflows v) (visitors t)"
  by (auto simp: updateVisitor_def Let_def)

lemma visitors_inv_create:
  assumes "visitors_inv t" and "createVisitor now d t = Inr (v, t')"
  shows "visitors_inv t'"
proof -
  from assms(2) have v: "visitor_id v = visitors_seq t" "isUnique v = Some True"
    "visitCount v = Some 1" "ipAddress v = inserted d IpAddress"
    and t': "visitors t' = visitors t @ [v]" "visitors_seq t' = visitors_seq t + 1"
    by (simp_all add: createVisitor_Inr)
  have ip: "length ip \<le> 50" if "ipAddress v = Some ip" for ip
    using that stored_ip_length by (auto simp: v(4) inserted_def split: option.splits)
  from assms(1) have old: "distinct (map visitor_id (visitors t))"
    "\<forall>w \<in> set (visitors t). visitor_id w < visitors_seq t \<and> isUnique w = Some True
       \<and> (\<exists>n. visitCount w = Some n \<and> 1 \<le> n \<and> n \<le> int4_max)
       \<and> (\<forall>ip. ipAddress w = Some ip \<longrightarrow> length ip \<le> 50)"
    by (simp_all add: visitors_inv_def)
  from old(2) have "visitors_seq t \<notin> visitor_id ` set (visitors t)" by auto
  with old(1) have "distinct (map visitor_id (visitors t'))"
    by (simp add: t' v(1))
  moreover have "\<forall>w \<in> set (visitors t'). visitor_id w < visitors_seq t' \<and> isUnique w = Some True
       \<and> (\<exists>n. visitCount w = Some n \<and> 1 \<le> n \<and> n \<le> int4_max)
       \<and> (\<forall>ip. ipAddress w = Some ip \<longrightarrow> length ip \<le> 50)"
    using old(2) v ip by (auto simp: t' int4_max_def)
  ultimately show ?thesis by (simp add: visitors_inv_def)
qed

lemma visitors_inv_update:
  assumes "visitors_inv t" and "updateVisitor now i d t = Inr (r, t')"
  shows "visitors_inv t'"
proof -
  define rows where
    "rows = map (\<lambda>v. if visitor_id v = i then set_clause now d v else v) (visitors t)"
  from assms(2) have t': "visitors t' = rows" "visitors_seq t' = visitors_seq t"
    and ok: "\<not> list_ex (\<lambda>v. visitor_id v = i \<and> overflows v) (visitors t)"
    by (simp_all add: updateVisitor_Inr rows_def)
  have ids: "map visitor_id rows = map visitor_id (visitors t)"
    unfolding rows_def by (rule map_update_ids)
  have each: "visitor_id w < visitors_seq t \<and> isUnique w = Some True
      \<and> (\<exists>n. visitCount w = Some n \<and> 1 \<le> n \<and> n \<le> int4_max)
      \<and> (\<forall>ip. ipAddress w = Some ip \<longrightarrow> length ip \<le> 50)"
    if "w \<in> set rows" for w
  proof -
    from that obtain v where v: "v \<in> set (visitors t)"
      and w: "w = (if visitor_id v = i then set_clause now d v else v)"
      unfolding rows_def by auto
    from assms(1) v obtain n where n: "visitor_id v < visitors_seq t" "isUnique v = Some True"
      "visitCount v = Some n" "1 \<le> n" "n \<le> int4_max"
      and ip: "\<forall>ip. ipAddress v = Some ip \<longrightarrow> length ip \<le> 50"
      by (auto simp: visitors_inv_def)
    show ?thesis
    proof (cases "visitor_id v = i")
      case True
      with ok v have "\<not> overflows v" by (auto simp: list_ex_iff)
      with n(3) have "n + 1 \<le> int4_max" by (simp add: overflows_def)
      with True w n updated_ip_length [OF ip] show ?thesis
        by (auto simp: set_clause_fields)
    next
      case False
      with w n ip show ?thesis by auto
    qed
  qed
  from assms(1) have "distinct (map visitor_id (visitors t))"
    by (simp add: visitors_inv_def)
  then show ?thesis
    unfolding visitors_inv_def t' ids using each by blast
qed

lemma visitors_inv_call: "visitors_inv t \<Longrightarrow> visitors_inv (call c t)"
proof (cases c)
  case (CreateVisitor now d)
  assume "visitors_inv t"
  then show ?thesis
    using visitors_inv_create [of t now d]
    by (auto simp: CreateVisitor split: sum.splits)
next
  case (UpdateVisitor now i d)
  assume "visitors_inv t"
  then show ?thesis
    using visitors_inv_update [of t now i d]
    by (auto simp: UpdateVisitor split: sum.splits)
qed

lemma visitors_inv_run: "visitors_inv t \<Longrightarrow> visitors_inv (run cs t)"
  by (induction cs arbitrary: t) (simp_all add: visitors_inv_call)

lemma same_id:
  "distinct (map visitor_id xs) \<Longrightarrow> v \<in> set xs \<Longrightarrow> w \<in> set xs \<Longrightarrow> visitor_id w = visitor_id v
   \<Longrightarrow> w = v"
  by (meson distinct_map inj_on_eq_iff)

lemma find_by_id:
  "distinct (map visitor_id xs) \<Longrightarrow> v \<in> set xs \<Longrightarrow> find (\<lambda>x. visitor_id x = visitor_id v) xs = Some v"
  by (induction xs) (auto simp: image_iff)

lemma find_after_update:
  "distinct (map visitor_id xs) \<Longrightarrow> find P xs = Some v \<Longrightarrow> P (g v)
   \<Longrightarrow> find P (map (\<lambda>x. if visitor_id x = visitor_id v then g x else x) xs) = Some (g v)"
proof (induction xs)
  case Nil
  then show ?case by simp
next
  case (Cons x xs)
  show ?case
  proof (cases "P x")
    case True
    with Cons.prems show ?thesis by simp
  next
    case False
    with Cons.prems have f: "find P xs = Some v" by simp
    then have "v \<in> set xs" by (auto simp: find_Some_iff)
    with Cons.prems(1) have "visitor_id x \<noteq> visitor_id v" by auto
    with False f Cons show ?thesis by simp
  qed
qed

lemma filter_after_update:
  "distinct (map visitor_id xs) \<Longrightarrow> filter P xs = [v] \<Longrightarrow> P (g v)
   \<Longrightarrow> filter P (map (\<lambda>x. if visitor_id x = visitor_id v then g x else x) xs) = [g v]"
proof (induction xs)
  case Nil
  then show ?case by simp
next
  case (Cons x xs)
  show ?case
  proof (cases "P x")
    case True
    with Cons.prems(2) have x: "x = v" and rest: "filter P xs = []" by simp_all
    from Cons.prems(1) x have "\<forall>y \<in> set xs. visitor_id y \<noteq> visitor_id v"
      by (auto simp: image_iff)
    then have "map (\<lambda>y. if visitor_id y = visitor_id v then g y else y) xs = xs"
      by (simp add: map_idI)
    with x rest Cons.prems(3) show ?thesis by simp
  next
    case False
    with Cons.prems(2) have f: "filter P xs = [v]" by simp
    then have "v \<in> set (filter P xs)" by simp
    then have "v \<in> set xs" by simp
    with Cons.prems(1) have "visitor_id x \<noteq> visitor_id v" by auto
    with False f Cons show ?thesis by simp
  qed
qed

lemma updateVisitor_row:
  assumes "visitors_inv t" and "v \<in> set (visitors t)" and "\<not> too_long d"
    and "visitCount v = Some n" and "n < int4_max"
  shows "updateVisitor now (visitor_id v) d t =
      Inr (Some (set_clause now d v),
           t\<lparr>visitors := map (\<lambda>x. if visitor_id x = visitor_id v then set_clause now d x else x)
                            (visitors t)\<rparr>)"
    and "getVisitor
           (t\<lparr>visitors := map (\<lambda>x. if visitor_id x = visitor_id v then set_clause now d x else x)
                             (visitors t)\<rparr>) (visitor_id v) = Some (set_clause now d v)"
proof -
  from assms(1) have d: "distinct (map visitor_id (visitors t))"
    by (simp add: visitors_inv_def)
  have "\<not> overflows w" if "w \<in> set (visitors t)" "visitor_id w = visitor_id v" for w
    using same_id [OF d assms(2) that] assms(4,5) by (simp add: overflows_def)
  then have ok: "\<not> list_ex (\<lambda>w. visitor_id w = visitor_id v \<and> overflows w) (visitors t)"
    by (auto simp: list_ex_iff)
  have f: "find (\<lambda>x. visitor_id x = visitor_id v)
          (map (\<lambda>x. if visitor_id x = visitor_id v then set_clause now d x else x) (visitors t))
        = Some (set_clause now d v)"
    by (rule find_after_update [OF d find_by_id [OF d assms(2)]]) (simp add: set_clause_fields)
  show "updateVisitor now (visitor_id v) d t =
      Inr (Some (set_clause now d v),
           t\<lparr>visitors := map (\<lambda>x. if visitor_id x = visitor_id v then set_clause now d x else x)
                            (visitors t)\<rparr>)"
    using assms(3) ok f by (simp add: updateVisitor_Inr)
  show "getVisitor
           (t\<lparr>visitors := map (\<lambda>x. if visitor_id x = visitor_id v then set_clause now d x else x)
                             (visitors t)\<rparr>) (visitor_id v) = Some (set_clause now d v)"
    using f by (simp add: getVisitor_def)
qed

lemma updateVisitor_raises:
  assumes "visitors_inv t" and "v \<in> set (visitors t)" and "visitCount v = Some n"
    and "too_long d \<or> n = int4_max"
  shows "\<exists>e. updateVisitor now (visitor_id v) d t = Inl e"
proof -
  from assms(3,4) have "too_long d \<or> overflows v"
    by (auto simp: overflows_def)
  with assms(2) show ?thesis
    by (auto simp: updateVisitor_Inl list_ex_iff)
qed

lemma getVisitorByIp_only:
  "filter (\<lambda>w. ipAddress w = Some ip) (visitors t) = [v] \<Longrightarrow> getVisitorByIp pick t ip = Some v"
  by (simp add: getVisitorByIp_def)

lemma recordVisit_repeat:
  assumes "visitors_inv t" and "filter (\<lambda>w. ipAddress w = Some ip) (visitors t) = [v]"
    and "obs IpAddress = Some (Some ip)"
  shows "recordVisit pick now obs t = updateVisitor now (visitor_id v) obs t"
    and "filter (\<lambda>w. ipAddress w = Some ip)
           (map (\<lambda>x. if visitor_id x = visitor_id v then set_clause now obs x else x) (visitors t))
         = [set_clause now obs v]"
proof -
  show "recordVisit pick now obs t = updateVisitor now (visitor_id v) obs t"
    using assms(3) getVisitorByIp_only [OF assms(2), of pick]
    by (simp add: recordVisit_def)
  from assms(1) have d: "distinct (map visitor_id (visitors t))"
    by (simp add: visitors_inv_def)
  from assms(2) have "v \<in> set (filter (\<lambda>w. ipAddress w = Some ip) (visitors t))" by simp
  then have v: "v \<in> set (visitors t)" "ipAddress v = Some ip" by simp_all
  with assms(1) have "length ip \<le> 50" by (auto simp: visitors_inv_def)
  then have "stored IpAddress ip = ip" by (simp add: stored_def width_def)
  then have "ipAddress (set_clause now obs v) = Some ip"
    using assms(3) by (simp add: set_clause_fields updated_def)
  then show "filter (\<lambda>w. ipAddress w = Some ip)
           (map (\<lambda>x. if visitor_id x = visitor_id v then set_clause now obs x else x) (visitors t))
         = [set_clause now obs v]"
    by (intro filter_after_update [OF d assms(2)])
qed


lemma sample_not_too_long: "\<not> too_long observation_a" "\<not> too_long observation_b" "\<not> too_long Map.empty"
  by (simp_all add: too_long_def columns_def observation_a_def observation_b_def over_wide_def
      width_def)

lemma wide_language_too_long: "too_long wide_language"
  by (simp add: too_long_def columns_def wide_language_def over_wide_def width_def)

lemma run_two_visitors:
  "run [CreateVisitor 100 observation_a, CreateVisitor 150 observation_b] empty_visitors
     = \<lparr>visitors = [visitor_a, visitor_d], visitors_seq = 3\<rparr>"
  by (simp add: createVisitor_def too_long_def columns_def over_wide_def Let_def
      empty_visitors_def observation_a_def observation_b_def visitor_a_def visitor_d_def
      inserted_def stored_def width_def)

text \<open>
  C1, as amended. In a table reached from the empty one by calls of \<open>createVisitor\<close> and
  \<open>updateVisitor\<close>, take a row and call \<open>updateVisitor\<close> on its id. When no value of the
  data is too long for its column and the row's \<open>visitCount\<close> is below 2147483647, the
  call creates no row, adds exactly 1 to that row's \<open>visitCount\<close>, sets its \<open>lastVisit\<close>
  to the current time, leaves its \<open>isUnique\<close> as it was and leaves the rows of other ids
  alone. When a value is too long or the count is 2147483647, the call raises. When the
  row is the only one with its IP address, two calls of \<open>RecordVisit\<close> with that address
  (no value too long, the count below 2147483646) leave the number of rows unchanged and
  add 1 to the row's \<open>visitCount\<close> each, whatever order the store returns rows in,
  without changing \<open>isUnique\<close>.
\<close>

theorem updateVisitor_repeat_visit:
  assumes "t = run calls empty_visitors" and "v \<in> set (visitors t)"
  shows "\<exists>n. visitCount v = Some n
     \<and> (\<not> too_long d \<and> n < int4_max \<longrightarrow>
          (\<exists>v' t'. updateVisitor now (visitor_id v) d t = Inr (Some v', t')
             \<and> length (visitors t') = length (visitors t)
             \<and> getVisitor t' (visitor_id v) = Some v'
             \<and> visitor_id v' = visitor_id v
             \<and> visitCount v' = Some (n + 1)
             \<and> lastVisit v' = now
             \<and> isUnique v' = isUnique v
             \<and> (\<forall>k < length (visitors t).
                   visitor_id (visitors t ! k) \<noteq> visitor_id v \<longrightarrow>
                   visitors t' ! k = visitors t ! k)))
     \<and> (too_long d \<or> n = int4_max \<longrightarrow> (\<exists>e. updateVisitor now (visitor_id v) d t = Inl e))
     \<and> (\<forall>ip obs1 obs2 now1 now2 pick1 pick2.
           filter (\<lambda>w. ipAddress w = Some ip) (visitors t) = [v]
           \<and> obs1 IpAddress = Some (Some ip) \<and> obs2 IpAddress = Some (Some ip)
           \<and> \<not> too_long obs1 \<and> \<not> too_long obs2 \<and> n + 1 < int4_max \<longrightarrow>
           (\<exists>v1 t1 v2 t2. recordVisit pick1 now1 obs1 t = Inr (Some v1, t1)
              \<and> recordVisit pick2 now2 obs2 t1 = Inr (Some v2, t2)
              \<and> length (visitors t1) = length (visitors t)
              \<and> length (visitors t2) = length (visitors t)
              \<and> visitor_id v1 = visitor_id v \<and> visitor_id v2 = visitor_id v
              \<and> visitCount v1 = Some (n + 1) \<and> visitCount v2 = Some (n + 2)
              \<and> isUnique v1 = isUnique v \<and> isUnique v2 = isUnique v
              \<and> getVisitor t2 (visitor_id v) = Some v2))"
proof -
  have inv: "visitors_inv t"
    using assms(1) by (simp add: visitors_inv_run visitors_inv_empty)
  with assms(2) obtain n where n: "visitCount v = Some n"
    by (auto simp: visitors_inv_def)
  have once: "\<exists>v' t'. updateVisitor now (visitor_id v) d t = Inr (Some v', t')
             \<and> length (visitors t') = length (visitors t)
             \<and> getVisitor t' (visitor_id v) = Some v'
             \<and> visitor_id v' = visitor_id v
             \<and> visitCount v' = Some (n + 1)
             \<and> lastVisit v' = now
             \<and> isUnique v' = isUnique v
             \<and> (\<forall>k < length (visitors t).
                   visitor_id (visitors t ! k) \<noteq> visitor_id v \<longrightarrow>
                   visitors t' ! k = visitors t ! k)"
    if h: "\<not> too_long d \<and> n < int4_max"
  proof -
    define v' where "v' = set_clause now d v"
    define t' where "t' = t\<lparr>visitors :=
        map (\<lambda>x. if visitor_id x = visitor_id v then set_clause now d x else x) (visitors t)\<rparr>"
    from h have h1: "\<not> too_long d" and h2: "n < int4_max" by simp_all
    have "updateVisitor now (visitor_id v) d t = Inr (Some v', t')"
      unfolding v'_def t'_def by (rule updateVisitor_row(1) [OF inv assms(2) h1 n h2])
    moreover have "getVisitor t' (visitor_id v) = Some v'"
      unfolding v'_def t'_def by (rule updateVisitor_row(2) [OF inv assms(2) h1 n h2])
    moreover have "length (visitors t') = length (visitors t)"
      "\<forall>k < length (visitors t).
          visitor_id (visitors t ! k) \<noteq> visitor_id v \<longrightarrow> visitors t' ! k = visitors t ! k"
      by (simp_all add: t'_def)
    moreover have "visitor_id v' = visitor_id v" "visitCount v' = Some (n + 1)"
      "lastVisit v' = now" "isUnique v' = isUnique v"
      by (simp_all add: v'_def set_clause_fields n)
    ultimately show ?thesis by blast
  qed
  have raises: "\<exists>e. updateVisitor now (visitor_id v) d t = Inl e" if "too_long d \<or> n = int4_max"
    by (rule updateVisitor_raises [OF inv assms(2) n that])
  have twice: "\<exists>v1 t1 v2 t2. recordVisit pick1 now1 obs1 t = Inr (Some v1, t1)
              \<and> recordVisit pick2 now2 obs2 t1 = Inr (Some v2, t2)
              \<and> length (visitors t1) = length (visitors t)
              \<and> length (visitors t2) = length (visitors t)
              \<and> visitor_id v1 = visitor_id v \<and> visitor_id v2 = visitor_id v
              \<and> visitCount v1 = Some (n + 1) \<and> visitCount v2 = Some (n + 2)
              \<and> isUnique v1 = isUnique v \<and> isUnique v2 = isUnique v
              \<and> getVisitor t2 (visitor_id v) = Some v2"
    if h: "filter (\<lambda>w. ipAddress w = Some ip) (visitors t) = [v]
           \<and> obs1 IpAddress = Some (Some ip) \<and> obs2 IpAddress = Some (Some ip)
           \<and> \<not> too_long obs1 \<and> \<not> too_long obs2 \<and> n + 1 < int4_max"
    for ip obs1 obs2 now1 now2 pick1 pick2
  proof -
    from h have only: "filter (\<lambda>w. ipAddress w = Some ip) (visitors t) = [v]"
      and o1: "obs1 IpAddress = Some (Some ip)" and o2: "obs2 IpAddress = Some (Some ip)"
      and f1: "\<not> too_long obs1" and f2: "\<not> too_long obs2"
      and b2: "n + 1 < int4_max"
      by simp_all
    from b2 have b1: "n < int4_max" by simp
    define v1 where "v1 = set_clause now1 obs1 v"
    define t1 where "t1 = t\<lparr>visitors :=
        map (\<lambda>x. if visitor_id x = visitor_id v then set_clause now1 obs1 x else x) (visitors t)\<rparr>"
    define v2 where "v2 = set_clause now2 obs2 v1"
    define t2 where "t2 = t1\<lparr>visitors :=
        map (\<lambda>x. if visitor_id x = visitor_id v1 then set_clause now2 obs2 x else x) (visitors t1)\<rparr>"
    have u1: "updateVisitor now1 (visitor_id v) obs1 t = Inr (Some v1, t1)"
      unfolding v1_def t1_def by (rule updateVisitor_row(1) [OF inv assms(2) f1 n b1])
    then have r1: "recordVisit pick1 now1 obs1 t = Inr (Some v1, t1)"
      by (simp add: recordVisit_repeat(1) [of t ip v obs1, OF inv only o1])
    have inv1: "visitors_inv t1"
      by (rule visitors_inv_update [OF inv u1])
    have only1: "filter (\<lambda>w. ipAddress w = Some ip) (visitors t1) = [v1]"
      using recordVisit_repeat(2) [of t ip v obs1 now1, OF inv only o1] by (simp add: t1_def v1_def)
    then have "v1 \<in> set (filter (\<lambda>w. ipAddress w = Some ip) (visitors t1))" by simp
    then have mem1: "v1 \<in> set (visitors t1)" by simp
    have n1: "visitCount v1 = Some (n + 1)"
      by (simp add: v1_def set_clause_fields n)
    have id1: "visitor_id v1 = visitor_id v"
      by (simp add: v1_def set_clause_fields)
    have u2: "updateVisitor now2 (visitor_id v1) obs2 t1 = Inr (Some v2, t2)"
      unfolding v2_def t2_def by (rule updateVisitor_row(1) [OF inv1 mem1 f2 n1 b2])
    then have r2: "recordVisit pick2 now2 obs2 t1 = Inr (Some v2, t2)"
      by (simp add: recordVisit_repeat(1) [of t1 ip v1 obs2, OF inv1 only1 o2])
    have "getVisitor t2 (visitor_id v1) = Some v2"
      unfolding v2_def t2_def by (rule updateVisitor_row(2) [OF inv1 mem1 f2 n1 b2])
    then have g: "getVisitor t2 (visitor_id v) = Some v2" by (simp add: id1)
    have "length (visitors t1) = length (visitors t)" "length (visitors t2) = length (visitors t)"
      by (simp_all add: t1_def t2_def)
    moreover have "visitCount v2 = Some (n + 2)" "isUnique v1 = isUnique v"
      "isUnique v2 = isUnique v" "visitor_id v2 = visitor_id v"
      by (simp_all add: v1_def v2_def set_clause_fields n)
    ultimately show ?thesis
      using r1 r2 id1 n1 g by blast
  qed
  show ?thesis
  proof (intro exI [of _ n] conjI impI allI)
    show "visitCount v = Some n" by (rule n)
  qed (rule once raises twice, assumption)+
qed

theorem updateVisitor_repeat_visit_witness:
  "\<exists>v1 t1 v2 t2.
      recordVisit 0 200 observation_b \<lparr>visitors = [visitor_a, visitor_d], visitors_seq = 3\<rparr>
        = Inr (Some v1, t1)
    \<and> recordVisit 5 300 observation_b t1 = Inr (Some v2, t2)
    \<and> length (visitors t1) = 2 \<and> length (visitors t2) = 2
    \<and> visitor_id v1 = 2 \<and> visitor_id v2 = 2
    \<and> visitCount v1 = Some 2 \<and> visitCount v2 = Some 3
    \<and> isUnique v1 = Some True \<and> isUnique v2 = Some True"
proof -
  let ?t = "\<lparr>visitors = [visitor_a, visitor_d], visitors_seq = 3\<rparr>"
  have reach: "?t = run [CreateVisitor 100 observation_a, CreateVisitor 150 observation_b] empty_visitors"
    by (simp only: run_two_visitors)
  have row: "visitor_d \<in> set (visitors ?t)" by simp
  from updateVisitor_repeat_visit [OF reach row, of Map.empty 200]
  obtain n where n: "visitCount visitor_d = Some n"
    and twice: "\<forall>ip obs1 obs2 now1 now2 pick1 pick2.
           filter (\<lambda>w. ipAddress w = Some ip) (visitors ?t) = [visitor_d]
           \<and> obs1 IpAddress = Some (Some ip) \<and> obs2 IpAddress = Some (Some ip)
           \<and> \<not> too_long obs1 \<and> \<not> too_long obs2 \<and> n + 1 < int4_max \<longrightarrow>
           (\<exists>v1 t1 v2 t2. recordVisit pick1 now1 obs1 ?t = Inr (Some v1, t1)
              \<and> recordVisit pick2 now2 obs2 t1 = Inr (Some v2, t2)
              \<and> length (visitors t1) = length (visitors ?t)
              \<and> length (visitors t2) = length (visitors ?t)
              \<and> visitor_id v1 = visitor_id visitor_d \<and> visitor_id v2 = visitor_id visitor_d
              \<and> visitCount v1 = Some (n + 1) \<and> visitCount v2 = Some (n + 2)
              \<and> isUnique v1 = isUnique visitor_d \<and> isUnique v2 = isUnique visitor_d
              \<and> getVisitor t2 (visitor_id visitor_d) = Some v2)"
    by (elim exE conjE)
  from n have n1: "n = 1" by (simp add: visitor_d_def)
  have h: "filter (\<lambda>w. ipAddress w = Some ''10.0.0.2'') (visitors ?t) = [visitor_d]
      \<and> observation_b IpAddress = Some (Some ''10.0.0.2'')
      \<and> observation_b IpAddress = Some (Some ''10.0.0.2'')
      \<and> \<not> too_long observation_b \<and> \<not> too_long observation_b \<and> n + 1 < int4_max"
    by (simp add: visitor_a_def visitor_d_def observation_b_def too_long_def columns_def
        over_wide_def width_def n1 int4_max_def)
  note two = twice [rule_format, of "''10.0.0.2''" observation_b observation_b 0 200 5 300, OF h]
  then obtain v1 t1 v2 t2 where
    r: "recordVisit 0 200 observation_b ?t = Inr (Some v1, t1)"
      "recordVisit 5 300 observation_b t1 = Inr (Some v2, t2)"
    and l: "length (visitors t1) = length (visitors ?t)" "length (visitors t2) = length (visitors ?t)"
    and i: "visitor_id v1 = visitor_id visitor_d" "visitor_id v2 = visitor_id visitor_d"
    and c: "visitCount v1 = Some (n + 1)" "visitCount v2 = Some (n + 2)"
    and u: "isUnique v1 = isUnique visitor_d" "isUnique v2 = isUnique visitor_d"
    by (elim exE conjE)
  show ?thesis
    by (rule exI [of _ v1], rule exI [of _ t1], rule exI [of _ v2], rule exI [of _ t2])
      (use r l i c u in \<open>simp add: n1 visitor_d_def\<close>)
qed

lemma run_repeated_updates:
  "1 \<le> n \<Longrightarrow> n + int k \<le> int4_max \<Longrightarrow>
   run (replicate k (UpdateVisitor 200 1 Map.empty))
     \<lparr>visitors = [visitor_a\<lparr>visitCount := Some n, lastVisit := l\<rparr>], visitors_seq = 2\<rparr>
   = \<lparr>visitors = [visitor_a\<lparr>visitCount := Some (n + int k),
                                lastVisit := (if k = 0 then l else 200)\<rparr>], visitors_seq = 2\<rparr>"
proof (induction k arbitrary: n l)
  case 0
  then show ?case by simp
next
  case (Suc k)
  have step: "call (UpdateVisitor 200 1 Map.empty)
      \<lparr>visitors = [visitor_a\<lparr>visitCount := Some n, lastVisit := l\<rparr>], visitors_seq = 2\<rparr>
    = \<lparr>visitors = [visitor_a\<lparr>visitCount := Some (n + 1), lastVisit := 200\<rparr>], visitors_seq = 2\<rparr>"
    using Suc.prems
    by (simp add: updateVisitor_def too_long_def columns_def overflows_def Let_def visitor_a_def
        set_clause_def updated_def)
  from Suc.prems have "1 \<le> n + 1" "n + 1 + int k \<le> int4_max" by simp_all
  from Suc.IH [OF this, of 200] have rest: "run (replicate k (UpdateVisitor 200 1 Map.empty))
      \<lparr>visitors = [visitor_a\<lparr>visitCount := Some (n + 1), lastVisit := 200\<rparr>], visitors_seq = 2\<rparr>
    = \<lparr>visitors = [visitor_a\<lparr>visitCount := Some (n + int (Suc k)), lastVisit := 200\<rparr>],
       visitors_seq = 2\<rparr>"
    by (simp add: add.assoc)
  show ?case
    unfolding replicate_Suc run.simps(2) step rest by simp
qed

lemma max_reached:
  "run (CreateVisitor 100 observation_a # replicate 2147483646 (UpdateVisitor 200 1 Map.empty))
      empty_visitors
     = \<lparr>visitors = [visitor_a\<lparr>visitCount := Some 2147483647, lastVisit := 200\<rparr>],
        visitors_seq = 2\<rparr>"
proof -
  have first: "call (CreateVisitor 100 observation_a) empty_visitors
      = \<lparr>visitors = [visitor_a\<lparr>visitCount := Some 1, lastVisit := 100\<rparr>], visitors_seq = 2\<rparr>"
    by (simp add: createVisitor_def too_long_def columns_def over_wide_def Let_def
        empty_visitors_def observation_a_def visitor_a_def inserted_def stored_def width_def)
  have "(1::int) \<le> 1" "1 + int 2147483646 \<le> int4_max"
    by (simp_all add: int4_max_def)
  from run_repeated_updates [OF this, of 100] show ?thesis
    unfolding run.simps(2) first by simp
qed

text \<open>
  C1 as stated says that every call of the update path adds 1 to the count of the row, and
  that two calls of \<open>RecordVisit\<close> with one IP address add 1 to the same row each. A
  language of 51 characters makes \<open>updateVisitor\<close> raise; so does a count of 2147483647,
  which a row has after 2147483646 updates.
  And in a table with two rows of one IP address (two calls of \<open>createVisitor\<close>), the
  store may return the first row to the first \<open>RecordVisit\<close> and the second row to the
  second: each row then has a count of 2, and none has gained 2.
\<close>

theorem updateVisitor_repeat_visit_counterexample:
  "updateVisitor 200 1 wide_language \<lparr>visitors = [visitor_a, visitor_d], visitors_seq = 3\<rparr>
     = Inl ValueTooLong
   \<and> run (CreateVisitor 100 observation_a # replicate 2147483646 (UpdateVisitor 200 1 Map.empty))
         empty_visitors
     = \<lparr>visitors = [visitor_a\<lparr>visitCount := Some 2147483647, lastVisit := 200\<rparr>],
        visitors_seq = 2\<rparr>
   \<and> updateVisitor 300 1 Map.empty
       \<lparr>visitors = [visitor_a\<lparr>visitCount := Some 2147483647, lastVisit := 200\<rparr>],
        visitors_seq = 2\<rparr>
     = Inl IntegerOutOfRange
   \<and> (case recordVisit 0 200 observation_a
             (run [CreateVisitor 100 observation_a, CreateVisitor 150 observation_a] empty_visitors) of
        Inl err \<Rightarrow> False
      | Inr (first, t1) \<Rightarrow>
          (case recordVisit 1 300 observation_a t1 of
             Inl err \<Rightarrow> False
           | Inr (second, t2) \<Rightarrow>
               map_option visitor_id first = Some 1 \<and> map_option visitor_id second = Some 2
               \<and> map visitCount (visitors t2) = [Some 2, Some 2]))"
proof (intro conjI)
  show "updateVisitor 200 1 wide_language \<lparr>visitors = [visitor_a, visitor_d], visitors_seq = 3\<rparr>
     = Inl ValueTooLong"
    by (simp add: updateVisitor_def wide_language_too_long)
  show "run (CreateVisitor 100 observation_a # replicate 2147483646 (UpdateVisitor 200 1 Map.empty))
         empty_visitors
     = \<lparr>visitors = [visitor_a\<lparr>visitCount := Some 2147483647, lastVisit := 200\<rparr>],
        visitors_seq = 2\<rparr>"
    by (rule max_reached)
  show "updateVisitor 300 1 Map.empty
       \<lparr>visitors = [visitor_a\<lparr>visitCount := Some 2147483647, lastVisit := 200\<rparr>],
        visitors_seq = 2\<rparr>
     = Inl IntegerOutOfRange"
    by (simp add: updateVisitor_def too_long_def columns_def overflows_def int4_max_def
        visitor_a_def)
  show "case recordVisit 0 200 observation_a
             (run [CreateVisitor 100 observation_a, CreateVisitor 150 observation_a] empty_visitors) of
        Inl err \<Rightarrow> False
      | Inr (first, t1) \<Rightarrow>
          (case recordVisit 1 300 observation_a t1 of
             Inl err \<Rightarrow> False
           | Inr (second, t2) \<Rightarrow>
               map_option visitor_id first = Some 1 \<and> map_option visitor_id second = Some 2
               \<and> map visitCount (visitors t2) = [Some 2, Some 2])"
    by (simp add: updateVisitor_def too_long_def columns_def over_wide_def overflows_def
        int4_max_def recordVisit_def getVisitorByIp_def createVisitor_def Let_def
        empty_visitors_def observation_a_def inserted_def updated_def stored_def width_def
        set_clause_def)
qed

text \<open>
  C2, as amended. Let no row have the IP address of the observation (or the observation
  have none). When no value of the observation is too long for its column, \<open>RecordVisit\<close>
  takes the \<open>createVisitor\<close> path and the table gains exactly one row, at its end, with
  \<open>isUnique\<close> true, \<open>visitCount\<close> 1, \<open>firstVisit\<close> and \<open>lastVisit\<close> the current time;
  each of the nine descriptive columns has the value the observation gives for it (as the
  column stores it: unchanged when it fits the width) and is NULL when the observation
  gives none; in a table reached from the empty one the id of the new row is new. When a
  value is too long, \<open>RecordVisit\<close> raises and adds no row.
\<close>

theorem recordVisit_new_ip:
  assumes "\<forall>ip. obs IpAddress = Some (Some ip) \<longrightarrow> (\<forall>w \<in> set (visitors t). ipAddress w \<noteq> Some ip)"
  shows "(\<not> too_long obs \<longrightarrow>
           (\<exists>v t'. recordVisit pick now obs t = Inr (Some v, t')
              \<and> createVisitor now obs t = Inr (v, t')
              \<and> visitors t' = visitors t @ [v]
              \<and> length (visitors t') = length (visitors t) + 1
              \<and> isUnique v = Some True \<and> visitCount v = Some 1
              \<and> firstVisit v = now \<and> lastVisit v = now
              \<and> (\<forall>c. obs c = None \<or> obs c = Some None \<longrightarrow> column_of c v = None)
              \<and> (\<forall>c s. obs c = Some (Some s) \<longrightarrow> column_of c v = Some (stored c s))
              \<and> (\<forall>c s. obs c = Some (Some s) \<and> fits c s \<longrightarrow> column_of c v = Some s)
              \<and> (\<forall>calls. t = run calls empty_visitors \<longrightarrow>
                    (\<forall>w \<in> set (visitors t). visitor_id w \<noteq> visitor_id v))))
     \<and> (too_long obs \<longrightarrow>
           recordVisit pick now obs t = Inl ValueTooLong
         \<and> createVisitor now obs t = Inl ValueTooLong)"
proof -
  have path: "recordVisit pick now obs t =
      (case createVisitor now obs t of Inl err \<Rightarrow> Inl err | Inr (v, t') \<Rightarrow> Inr (Some v, t'))"
  proof (cases "\<exists>ip. obs IpAddress = Some (Some ip)")
    case True
    then obtain ip where ip: "obs IpAddress = Some (Some ip)" by blast
    with assms have "filter (\<lambda>w. ipAddress w = Some ip) (visitors t) = []"
      by (simp add: filter_empty_conv)
    then have "getVisitorByIp pick t ip = None"
      by (simp add: getVisitorByIp_def)
    with ip show ?thesis by (simp add: recordVisit_def)
  next
    case False
    then show ?thesis
      by (auto simp: recordVisit_def Let_def split: option.splits)
  qed
  have ok: "\<exists>v t'. recordVisit pick now obs t = Inr (Some v, t')
              \<and> createVisitor now obs t = Inr (v, t')
              \<and> visitors t' = visitors t @ [v]
              \<and> length (visitors t') = length (visitors t) + 1
              \<and> isUnique v = Some True \<and> visitCount v = Some 1
              \<and> firstVisit v = now \<and> lastVisit v = now
              \<and> (\<forall>c. obs c = None \<or> obs c = Some None \<longrightarrow> column_of c v = None)
              \<and> (\<forall>c s. obs c = Some (Some s) \<longrightarrow> column_of c v = Some (stored c s))
              \<and> (\<forall>c s. obs c = Some (Some s) \<and> fits c s \<longrightarrow> column_of c v = Some s)
              \<and> (\<forall>calls. t = run calls empty_visitors \<longrightarrow>
                    (\<forall>w \<in> set (visitors t). visitor_id w \<noteq> visitor_id v))"
    if fit: "\<not> too_long obs"
  proof -
    define v where "v = \<lparr>visitor_id = visitors_seq t,
               ipAddress = inserted obs IpAddress, userAgent = inserted obs UserAgent,
               referrer = inserted obs Referrer, language = inserted obs Language,
               country = inserted obs Country, city = inserted obs City,
               device = inserted obs Device, browser = inserted obs Browser, os = inserted obs Os,
               isUnique = Some True, visitCount = Some 1, lastVisit = now, firstVisit = now\<rparr>"
    define t' where "t' = \<lparr>visitors = visitors t @ [v], visitors_seq = visitors_seq t + 1\<rparr>"
    have c: "createVisitor now obs t = Inr (v, t')"
      using fit by (simp add: createVisitor_Inr v_def t'_def)
    then have r: "recordVisit pick now obs t = Inr (Some v, t')"
      by (simp add: path)
    have cols: "column_of c v = inserted obs c" for c
      by (cases c) (simp_all add: column_of_def v_def)
    have fresh: "\<forall>w \<in> set (visitors t). visitor_id w \<noteq> visitor_id v"
      if "t = run calls empty_visitors" for calls
    proof -
      from that have "visitors_inv t"
        by (simp add: visitors_inv_run visitors_inv_empty)
      moreover have "visitor_id v = visitors_seq t"
        by (simp add: v_def)
      ultimately show ?thesis
        by (auto simp: visitors_inv_def)
    qed
    have "visitors t' = visitors t @ [v]" "length (visitors t') = length (visitors t) + 1"
      "isUnique v = Some True" "visitCount v = Some 1" "firstVisit v = now" "lastVisit v = now"
      by (simp_all add: v_def t'_def)
    moreover have "\<forall>c. obs c = None \<or> obs c = Some None \<longrightarrow> column_of c v = None"
      by (auto simp: cols inserted_def)
    moreover have "\<forall>c s. obs c = Some (Some s) \<longrightarrow> column_of c v = Some (stored c s)"
      by (simp add: cols inserted_def)
    moreover have "\<forall>c s. obs c = Some (Some s) \<and> fits c s \<longrightarrow> column_of c v = Some s"
      by (simp add: cols inserted_def stored_fits)
    ultimately show ?thesis
      using r c fresh by blast
  qed
  have bad: "recordVisit pick now obs t = Inl ValueTooLong
         \<and> createVisitor now obs t = Inl ValueTooLong" if "too_long obs"
  proof -
    from that have "createVisitor now obs t = Inl ValueTooLong"
      by (simp add: createVisitor_Inl)
    then show ?thesis by (simp add: path)
  qed
  show ?thesis
  proof (intro conjI impI)
    assume "\<not> too_long obs"
    then show "\<exists>v t'. recordVisit pick now obs t = Inr (Some v, t')
              \<and> createVisitor now obs t = Inr (v, t')
              \<and> visitors t' = visitors t @ [v]
              \<and> length (visitors t') = length (visitors t) + 1
              \<and> isUnique v = Some True \<and> visitCount v = Some 1
              \<and> firstVisit v = now \<and> lastVisit v = now
              \<and> (\<forall>c. obs c = None \<or> obs c = Some None \<longrightarrow> column_of c v = None)
              \<and> (\<forall>c s. obs c = Some (Some s) \<longrightarrow> column_of c v = Some (stored c s))
              \<and> (\<forall>c s. obs c = Some (Some s) \<and> fits c s \<longrightarrow> column_of c v = Some s)
              \<and> (\<forall>calls. t = run calls empty_visitors \<longrightarrow>
                    (\<forall>w \<in> set (visitors t). visitor_id w \<noteq> visitor_id v))"
      by (rule ok)
  next
    assume "too_long obs"
    then show "recordVisit pick now obs t = Inl ValueTooLong"
      by (rule bad [THEN conjunct1])
  next
    assume "too_long obs"
    then show "createVisitor now obs t = Inl ValueTooLong"
      by (rule bad [THEN conjunct2])
  qed
qed

theorem recordVisit_new_ip_witness:
  "recordVisit 7 300 observation_c \<lparr>visitors = [visitor_a, visitor_d], visitors_seq = 3\<rparr>
     = Inr (Some visitor_c, \<lparr>visitors = [visitor_a, visitor_d, visitor_c], visitors_seq = 4\<rparr>)
   \<and> recordVisit 7 300 wide_observation \<lparr>visitors = [visitor_a, visitor_d], visitors_seq = 3\<rparr>
     = Inl ValueTooLong"
proof -
  let ?t = "\<lparr>visitors = [visitor_a, visitor_d], visitors_seq = 3\<rparr>"
  have new: "\<forall>ip. observation_c IpAddress = Some (Some ip) \<longrightarrow>
      (\<forall>w \<in> set (visitors ?t). ipAddress w \<noteq> Some ip)"
    by (simp add: observation_c_def visitor_a_def visitor_d_def)
  have new9: "\<forall>ip. wide_observation IpAddress = Some (Some ip) \<longrightarrow>
      (\<forall>w \<in> set (visitors ?t). ipAddress w \<noteq> Some ip)"
    by (simp add: wide_observation_def visitor_a_def visitor_d_def)
  have fit: "\<not> too_long observation_c"
    by (simp add: too_long_def columns_def observation_c_def over_wide_def width_def)
  have wide: "too_long wide_observation"
    by (simp add: too_long_def columns_def wide_observation_def over_wide_def width_def)
  note ok = recordVisit_new_ip [of observation_c ?t 7 300, OF new, THEN conjunct1, THEN mp, OF fit]
  then obtain v t' where r: "recordVisit 7 300 observation_c ?t = Inr (Some v, t')"
    and c: "createVisitor 300 observation_c ?t = Inr (v, t')"
    by (elim exE conjE)
  from c have "v = visitor_c" "t' = \<lparr>visitors = [visitor_a, visitor_d, visitor_c], visitors_seq = 4\<rparr>"
    by (auto simp: createVisitor_Inr observation_c_def visitor_c_def inserted_def stored_def
        width_def)
  with r have "recordVisit 7 300 observation_c ?t
     = Inr (Some visitor_c, \<lparr>visitors = [visitor_a, visitor_d, visitor_c], visitors_seq = 4\<rparr>)"
    by simp
  moreover note recordVisit_new_ip [of wide_observation ?t 7 300, OF new9, THEN conjunct2,
      THEN mp, OF wide, THEN conjunct1]
  ultimately show ?thesis by (rule conjI)
qed

text \<open>
  C2 as stated says that \<open>RecordVisit\<close> inserts a row for every observation whose IP
  address has no row. An observation with a new IP address and a language of 51
  characters makes the insert raise: no row is added.
\<close>

theorem recordVisit_new_ip_counterexample:
  "getVisitorByIp 0 \<lparr>visitors = [visitor_a, visitor_d], visitors_seq = 3\<rparr> ''10.0.0.9'' = None
   \<and> recordVisit 0 300 wide_observation \<lparr>visitors = [visitor_a, visitor_d], visitors_seq = 3\<rparr>
       = Inl ValueTooLong
   \<and> createVisitor 300 wide_observation \<lparr>visitors = [visitor_a, visitor_d], visitors_seq = 3\<rparr>
       = Inl ValueTooLong"
  by (simp add: recordVisit_def getVisitorByIp_def createVisitor_def too_long_def columns_def
      over_wide_def width_def wide_observation_def visitor_a_def visitor_d_def)

lemma run_append: "run (xs @ ys) t = run ys (run xs t)"
  by (induction xs arbitrary: t) simp_all

lemma call_unchanged: "raises c t \<Longrightarrow> call c t = t"
  by (cases c) (auto split: sum.splits)

lemma call_tracks:
  assumes "v \<in> set (visitors t)" and "visitCount v = Some n"
  shows "\<exists>v'. v' \<in> set (visitors (call c t)) \<and> visitor_id v' = visitor_id v
      \<and> isUnique v' = isUnique v \<and> firstVisit v' = firstVisit v
      \<and> visitCount v' = Some (n + int (if raises c t then 0 else updates_to (visitor_id v) [c]))"
proof (cases "raises c t")
  case True
  with assms show ?thesis by (auto simp: call_unchanged)
next
  case False
  show ?thesis
  proof (cases c)
    case (CreateVisitor now d)
    with False obtain w t' where cw: "createVisitor now d t = Inr (w, t')"
      by (auto split: sum.splits)
    have "call c t = t'"
      using cw by (simp add: CreateVisitor)
    moreover have "visitors t' = visitors t @ [w]"
      using cw by (simp add: createVisitor_Inr)
    ultimately have "visitors (call c t) = visitors t @ [w]" by simp
    with assms False show ?thesis
      by (intro exI [of _ v]) (simp add: CreateVisitor)
  next
    case (UpdateVisitor now i d)
    with False obtain r t' where u: "updateVisitor now i d t = Inr (r, t')"
      by (auto split: sum.splits)
    define v' where "v' = (if visitor_id v = i then set_clause now d v else v)"
    have "call c t = t'"
      using u by (simp add: UpdateVisitor)
    moreover have "visitors t' =
        map (\<lambda>x. if visitor_id x = i then set_clause now d x else x) (visitors t)"
      using u by (simp add: updateVisitor_Inr)
    ultimately have "visitors (call c t) =
        map (\<lambda>x. if visitor_id x = i then set_clause now d x else x) (visitors t)"
      by simp
    with assms(1) have "v' \<in> set (visitors (call c t))"
      by (auto simp: v'_def)
    moreover have "visitor_id v' = visitor_id v" "isUnique v' = isUnique v"
      "firstVisit v' = firstVisit v"
      "visitCount v' = Some (n + int (if raises c t then 0 else updates_to (visitor_id v) [c]))"
      using assms(2) False by (auto simp: v'_def set_clause_fields UpdateVisitor)
    ultimately show ?thesis by blast
  qed
qed

lemma run_tracks:
  "v \<in> set (visitors t) \<Longrightarrow> visitCount v = Some n
   \<Longrightarrow> \<exists>v'. v' \<in> set (visitors (run cs t)) \<and> visitor_id v' = visitor_id v
      \<and> isUnique v' = isUnique v \<and> firstVisit v' = firstVisit v
      \<and> visitCount v' = Some (n + int (updates_applied (visitor_id v) cs t))"
proof (induction cs arbitrary: t v n)
  case Nil
  then show ?case by auto
next
  case (Cons c cs)
  define m where "m = n + int (if raises c t then 0 else updates_to (visitor_id v) [c])"
  from call_tracks [OF Cons.prems, of c]
  obtain w where w: "w \<in> set (visitors (call c t))" "visitor_id w = visitor_id v"
    "isUnique w = isUnique v" "firstVisit w = firstVisit v" "visitCount w = Some m"
    unfolding m_def by blast
  from Cons.IH [OF w(1) w(5)]
  obtain v' where v': "v' \<in> set (visitors (run cs (call c t)))" "visitor_id v' = visitor_id w"
    "isUnique v' = isUnique w" "firstVisit v' = firstVisit w"
    "visitCount v' = Some (m + int (updates_applied (visitor_id w) cs (call c t)))"
    by blast
  with w show ?case
    by (intro exI [of _ v']) (simp add: m_def)
qed

lemma row_origin:
  "w \<in> set (visitors (run calls empty_visitors))
   \<Longrightarrow> \<exists>pre now0 d0 post v t1. calls = pre @ CreateVisitor now0 d0 # post
         \<and> createVisitor now0 d0 (run pre empty_visitors) = Inr (v, t1)
         \<and> visitor_id w = visitor_id v"
proof (induction calls arbitrary: w rule: rev_induct)
  case Nil
  then show ?case by (simp add: empty_visitors_def)
next
  case (snoc c cs)
  have step: "run (cs @ [c]) empty_visitors = call c (run cs empty_visitors)"
    by (simp add: run_append)
  have old: "\<exists>pre now0 d0 post v t1. cs @ [c] = pre @ CreateVisitor now0 d0 # post
         \<and> createVisitor now0 d0 (run pre empty_visitors) = Inr (v, t1)
         \<and> visitor_id w = visitor_id v"
    if "w0 \<in> set (visitors (run cs empty_visitors))" "visitor_id w = visitor_id w0" for w0
  proof -
    from snoc.IH [OF that(1)] obtain pre now0 d0 post v t1 where
      "cs = pre @ CreateVisitor now0 d0 # post"
      "createVisitor now0 d0 (run pre empty_visitors) = Inr (v, t1)"
      "visitor_id w0 = visitor_id v"
      by blast
    then have "cs @ [c] = pre @ CreateVisitor now0 d0 # (post @ [c])
        \<and> createVisitor now0 d0 (run pre empty_visitors) = Inr (v, t1)
        \<and> visitor_id w = visitor_id v"
      using that(2) by simp
    then show ?thesis by blast
  qed
  show ?case
  proof (cases "raises c (run cs empty_visitors)")
    case True
    with snoc.prems [unfolded step] have "w \<in> set (visitors (run cs empty_visitors))"
      by (simp add: call_unchanged)
    then show ?thesis by (rule old) simp
  next
    case False
    show ?thesis
    proof (cases c)
      case (CreateVisitor now d)
      with False obtain v t1 where c1: "createVisitor now d (run cs empty_visitors) = Inr (v, t1)"
        by (auto split: sum.splits)
      have "call c (run cs empty_visitors) = t1"
        using c1 by (simp add: CreateVisitor)
      moreover have "visitors t1 = visitors (run cs empty_visitors) @ [v]"
        using c1 by (simp add: createVisitor_Inr)
      ultimately have "w \<in> set (visitors (run cs empty_visitors)) \<or> w = v"
        using snoc.prems [unfolded step] by auto
      then show ?thesis
      proof
        assume "w \<in> set (visitors (run cs empty_visitors))"
        then show ?thesis by (rule old) simp
      next
        assume "w = v"
        with c1 have "cs @ [c] = cs @ CreateVisitor now d # []
            \<and> createVisitor now d (run cs empty_visitors) = Inr (v, t1)
            \<and> visitor_id w = visitor_id v"
          by (simp add: CreateVisitor)
        then show ?thesis by blast
      qed
    next
      case (UpdateVisitor now i d)
      with False obtain r t1 where u1: "updateVisitor now i d (run cs empty_visitors) = Inr (r, t1)"
        by (auto split: sum.splits)
      have "call c (run cs empty_visitors) = t1"
        using u1 by (simp add: UpdateVisitor)
      moreover have "visitors t1 =
          map (\<lambda>x. if visitor_id x = i then set_clause now d x else x)
            (visitors (run cs empty_visitors))"
        using u1 by (simp add: updateVisitor_Inr)
      ultimately obtain w0 where
        "w0 \<in> set (visitors (run cs empty_visitors))"
        "w = (if visitor_id w0 = i then set_clause now d w0 else w0)"
        using snoc.prems [unfolded step] by auto
      then have "w0 \<in> set (visitors (run cs empty_visitors))" "visitor_id w = visitor_id w0"
        by (simp_all add: set_clause_fields)
      then show ?thesis by (rule old)
    qed
  qed
qed


lemma update_call_rows:
  "visitors (call (UpdateVisitor now i d) t) =
     (if raises (UpdateVisitor now i d) t then visitors t
      else map (\<lambda>x. if visitor_id x = i then set_clause now d x else x) (visitors t))"
proof (cases "updateVisitor now i d t")
  case (Inl e)
  then show ?thesis by simp
next
  case (Inr p)
  obtain r t' where p: "p = (r, t')" by (cases p)
  have "visitors t' = map (\<lambda>x. if visitor_id x = i then set_clause now d x else x) (visitors t)"
    using Inr by (simp add: p updateVisitor_Inr)
  with Inr show ?thesis by (simp add: p)
qed

text \<open>
  C10, as amended. A call of \<open>updateVisitor\<close>, with any id and any data (a value of
  \<open>Partial<InsertVisitor>\<close> has the nine descriptive keys only), whether it returns or
  raises, keeps the number of rows and, of every row, the \<open>id\<close>, \<open>isUnique\<close> and
  \<open>firstVisit\<close>; it adds 1 to the \<open>visitCount\<close> of the rows with that id when it returns
  and leaves every count as it is otherwise. Hence a row made by \<open>createVisitor\<close> in a
  table reached from the empty one has, after any further calls, the \<open>isUnique\<close> (true)
  and \<open>firstVisit\<close> of its creation and a \<open>visitCount\<close> of 1 plus the number of
  \<open>updateVisitor\<close> calls made with its id since that did not raise; and every row of a
  reachable table was made by such a \<open>createVisitor\<close> call.
\<close>

theorem updateVisitor_keeps_creation_fields:
  "length (visitors (call (UpdateVisitor now i d) t)) = length (visitors t)
   \<and> (\<forall>k < length (visitors t).
         visitor_id (visitors (call (UpdateVisitor now i d) t) ! k) = visitor_id (visitors t ! k)
       \<and> isUnique (visitors (call (UpdateVisitor now i d) t) ! k) = isUnique (visitors t ! k)
       \<and> firstVisit (visitors (call (UpdateVisitor now i d) t) ! k) = firstVisit (visitors t ! k)
       \<and> visitCount (visitors (call (UpdateVisitor now i d) t) ! k) =
           (if visitor_id (visitors t ! k) = i \<and> \<not> raises (UpdateVisitor now i d) t
            then (case visitCount (visitors t ! k) of None \<Rightarrow> None | Some n \<Rightarrow> Some (n + 1))
            else visitCount (visitors t ! k)))
   \<and> (\<forall>v t1. createVisitor now0 d0 (run pre empty_visitors) = Inr (v, t1) \<longrightarrow>
         isUnique v = Some True \<and> visitCount v = Some 1
         \<and> (\<exists>v'. getVisitor (run post t1) (visitor_id v) = Some v'
               \<and> isUnique v' = isUnique v
               \<and> firstVisit v' = firstVisit v
               \<and> visitCount v' = Some (1 + int (updates_applied (visitor_id v) post t1))))
   \<and> (\<forall>w \<in> set (visitors (run calls empty_visitors)).
         \<exists>pre now0 d0 post v t1. calls = pre @ CreateVisitor now0 d0 # post
           \<and> createVisitor now0 d0 (run pre empty_visitors) = Inr (v, t1)
           \<and> visitor_id w = visitor_id v)"
proof -
  have len: "length (visitors (call (UpdateVisitor now i d) t)) = length (visitors t)"
    by (simp only: update_call_rows) simp
  have rows: "\<forall>k < length (visitors t).
         visitor_id (visitors (call (UpdateVisitor now i d) t) ! k) = visitor_id (visitors t ! k)
       \<and> isUnique (visitors (call (UpdateVisitor now i d) t) ! k) = isUnique (visitors t ! k)
       \<and> firstVisit (visitors (call (UpdateVisitor now i d) t) ! k) = firstVisit (visitors t ! k)
       \<and> visitCount (visitors (call (UpdateVisitor now i d) t) ! k) =
           (if visitor_id (visitors t ! k) = i \<and> \<not> raises (UpdateVisitor now i d) t
            then (case visitCount (visitors t ! k) of None \<Rightarrow> None | Some n \<Rightarrow> Some (n + 1))
            else visitCount (visitors t ! k))"
    by (simp only: update_call_rows) (simp add: set_clause_fields)
  have origin: "\<forall>w \<in> set (visitors (run calls empty_visitors)).
         \<exists>pre now0 d0 post v t1. calls = pre @ CreateVisitor now0 d0 # post
           \<and> createVisitor now0 d0 (run pre empty_visitors) = Inr (v, t1)
           \<and> visitor_id w = visitor_id v"
    using row_origin by blast
  have history: "isUnique v = Some True \<and> visitCount v = Some 1
         \<and> (\<exists>v'. getVisitor (run post t1) (visitor_id v) = Some v'
               \<and> isUnique v' = isUnique v
               \<and> firstVisit v' = firstVisit v
               \<and> visitCount v' = Some (1 + int (updates_applied (visitor_id v) post t1)))"
    if c: "createVisitor now0 d0 (run pre empty_visitors) = Inr (v, t1)" for v t1
  proof -
    define t2 where "t2 = run post t1"
    have "visitors_inv (run pre empty_visitors)"
      by (simp add: visitors_inv_run visitors_inv_empty)
    then have "visitors_inv t1"
      using c by (rule visitors_inv_create)
    then have inv2: "visitors_inv t2"
      unfolding t2_def by (rule visitors_inv_run)
    from c have v: "isUnique v = Some True" "visitCount v = Some 1" "v \<in> set (visitors t1)"
      by (simp_all add: createVisitor_Inr)
    from run_tracks [OF v(3) v(2), of post]
    obtain v' where v': "v' \<in> set (visitors t2)" "visitor_id v' = visitor_id v"
      "isUnique v' = isUnique v" "firstVisit v' = firstVisit v"
      "visitCount v' = Some (1 + int (updates_applied (visitor_id v) post t1))"
      unfolding t2_def by blast
    from inv2 have "distinct (map visitor_id (visitors t2))"
      by (simp add: visitors_inv_def)
    from find_by_id [OF this v'(1)] have "getVisitor t2 (visitor_id v) = Some v'"
      by (simp add: getVisitor_def v'(2))
    with v' have "\<exists>v'. getVisitor (run post t1) (visitor_id v) = Some v'
               \<and> isUnique v' = isUnique v
               \<and> firstVisit v' = firstVisit v
               \<and> visitCount v' = Some (1 + int (updates_applied (visitor_id v) post t1))"
      unfolding t2_def by blast
    with v(1,2) show ?thesis by simp
  qed
  then have all: "\<forall>v t1. createVisitor now0 d0 (run pre empty_visitors) = Inr (v, t1) \<longrightarrow>
         isUnique v = Some True \<and> visitCount v = Some 1
         \<and> (\<exists>v'. getVisitor (run post t1) (visitor_id v) = Some v'
               \<and> isUnique v' = isUnique v
               \<and> firstVisit v' = firstVisit v
               \<and> visitCount v' = Some (1 + int (updates_applied (visitor_id v) post t1)))"
    by (intro allI impI)
  show ?thesis
    by (intro conjI) (rule len, rule rows, rule all, rule origin)
qed

lemma sample_history:
  "createVisitor 100 observation_a (run [] empty_visitors)
     = Inr (visitor_a, \<lparr>visitors = [visitor_a], visitors_seq = 2\<rparr>)"
  "updates_applied 1
     [UpdateVisitor 200 1 [Country \<mapsto> Some ''DE''], UpdateVisitor 250 1 wide_language,
      UpdateVisitor 300 7 Map.empty, CreateVisitor 350 Map.empty,
      UpdateVisitor 400 1 [IpAddress \<mapsto> None]]
     \<lparr>visitors = [visitor_a], visitors_seq = 2\<rparr> = 2"
  by (simp_all add: createVisitor_def updateVisitor_def too_long_def columns_def over_wide_def
      width_def overflows_def int4_max_def Let_def empty_visitors_def observation_a_def
      wide_language_def visitor_a_def inserted_def updated_def stored_def set_clause_def)

theorem updateVisitor_keeps_creation_fields_witness:
  "\<exists>v'. getVisitor (run [UpdateVisitor 200 1 [Country \<mapsto> Some ''DE''],
                          UpdateVisitor 250 1 wide_language,
                          UpdateVisitor 300 7 Map.empty,
                          CreateVisitor 350 Map.empty,
                          UpdateVisitor 400 1 [IpAddress \<mapsto> None]]
                     \<lparr>visitors = [visitor_a], visitors_seq = 2\<rparr>) 1 = Some v'
      \<and> isUnique v' = Some True \<and> firstVisit v' = 100 \<and> visitCount v' = Some 3"
proof -
  let ?post = "[UpdateVisitor 200 1 [Country \<mapsto> Some ''DE''], UpdateVisitor 250 1 wide_language,
      UpdateVisitor 300 7 Map.empty, CreateVisitor 350 Map.empty,
      UpdateVisitor 400 1 [IpAddress \<mapsto> None]]"
  let ?t1 = "\<lparr>visitors = [visitor_a], visitors_seq = 2\<rparr>"
  note h = updateVisitor_keeps_creation_fields
    [of 0 0 Map.empty empty_visitors 100 observation_a "[]" ?post "[]",
      THEN conjunct2, THEN conjunct2, THEN conjunct1, rule_format, OF sample_history(1)]
  then obtain v' where "getVisitor (run ?post ?t1) (visitor_id visitor_a) = Some v'"
    "isUnique v' = isUnique visitor_a" "firstVisit v' = firstVisit visitor_a"
    "visitCount v' = Some (1 + int (updates_applied (visitor_id visitor_a) ?post ?t1))"
    by (elim exE conjE)
  then have "getVisitor (run ?post ?t1) 1 = Some v'
      \<and> isUnique v' = Some True \<and> firstVisit v' = 100 \<and> visitCount v' = Some 3"
    using sample_history(2) by (simp add: visitor_a_def)
  then show ?thesis by (rule exI)
qed

text \<open>
  C10 as stated counts every call of \<open>updateVisitor\<close> made with the id of the row. After
  \<open>createVisitor\<close> and one call of \<open>updateVisitor\<close> with the id of the new row and a
  language of 51 characters, which raises, the count of the row is 1, not 2.
\<close>

theorem updateVisitor_keeps_creation_fields_counterexample:
  "createVisitor 100 observation_a empty_visitors
     = Inr (visitor_a, \<lparr>visitors = [visitor_a], visitors_seq = 2\<rparr>)
   \<and> updateVisitor 200 1 wide_language \<lparr>visitors = [visitor_a], visitors_seq = 2\<rparr>
       = Inl ValueTooLong
   \<and> updates_to 1 [UpdateVisitor 200 1 wide_language] = 1
   \<and> getVisitor (run [UpdateVisitor 200 1 wide_language] \<lparr>visitors = [visitor_a], visitors_seq = 2\<rparr>) 1
       = Some visitor_a
   \<and> visitCount visitor_a = Some 1"
  by (simp add: createVisitor_def updateVisitor_def getVisitor_def too_long_def columns_def
      over_wide_def width_def Let_def empty_visitors_def observation_a_def wide_language_def
      visitor_a_def inserted_def stored_def)

section \<open>Statistics: properties\<close>

lemma count_non_null: "count_list (non_null xs) k = count_list xs (Some k)"
  by (induction xs rule: non_null.induct) simp_all

lemma group_by_count_rows:
  "g \<in> set (group_by_count ks) \<Longrightarrow>
     \<exists>k. g = (Some k, int (count_list ks k)) \<and> 1 \<le> int (count_list ks k)"
proof -
  assume "g \<in> set (group_by_count ks)"
  then obtain k where k: "k \<in> set ks" "g = (Some k, int (count_list ks k))"
    by (auto simp: group_by_count_def)
  from k(1) have "count_list ks k \<noteq> 0"
    by (simp add: count_list_0_iff)
  with k(2) show ?thesis by auto
qed

lemma group_by_count_distinct: "distinct (map fst (group_by_count ks))"
  by (simp add: group_by_count_def comp_def distinct_map inj_on_def)

lemma distinct_fst_insort_key:
  "distinct (map fst (insort_key f x xs)) = (fst x \<notin> fst ` set xs \<and> distinct (map fst xs))"
  by (induction xs) (auto simp: image_iff set_insort_key)

lemma distinct_fst_sort_key:
  "distinct (map fst xs) \<Longrightarrow> distinct (map fst (sort_key f xs))"
  by (induction xs) (simp_all add: sort_key_simps distinct_fst_insort_key)

lemma top10_raw_length: "length (top10_raw col t) \<le> 10"
  by (simp add: top10_raw_def)

lemma top10_raw_sorted: "sorted_wrt (\<lambda>a b. snd b \<le> snd a) (top10_raw col t)"
proof -
  have "sorted (map (\<lambda>g. - snd g) (sort_key (\<lambda>g. - snd g) xs))" for xs :: "(string option \<times> int) list"
    by (rule sorted_sort_key)
  then have "sorted_wrt (\<lambda>a b. snd b \<le> snd a) (sort_key (\<lambda>g. - snd g) xs)"
    for xs :: "(string option \<times> int) list"
    by (simp add: sorted_wrt_map)
  then show ?thesis
    unfolding top10_raw_def by (rule sorted_wrt_take)
qed

lemma top10_raw_distinct: "distinct (map fst (top10_raw col t))"
  unfolding top10_raw_def take_map [symmetric]
  by (intro distinct_take distinct_fst_sort_key group_by_count_distinct)

lemma top10_raw_rows:
  assumes "g \<in> set (top10_raw col t)"
  shows "\<exists>k. g = (Some k, int (count_list (map col (visitors t)) (Some k)))
           \<and> 1 \<le> int (count_list (map col (visitors t)) (Some k))"
proof -
  from assms have "g \<in> set (group_by_count (non_null (map col (visitors t))))"
    by (auto simp: top10_raw_def dest: in_set_takeD)
  from group_by_count_rows [OF this] show ?thesis
    by (simp add: count_non_null)
qed

lemma breakdown_of_top10:
  "breakdown_of (map col (visitors t)) (top10_raw col t)
     (map (\<lambda>item. (or_unknown (fst item), snd item)) (top10_raw col t))"
proof -
  let ?raw = "top10_raw col t"
  let ?out = "map (\<lambda>item. (or_unknown (fst item), snd item)) ?raw"
  have "sorted_wrt (\<lambda>a b. snd b \<le> snd a) ?out"
    using top10_raw_sorted [of col t] by (simp add: sorted_wrt_map)
  moreover have "\<exists>k. fst (?raw ! j) = Some k
          \<and> snd (?raw ! j) = int (count_list (map col (visitors t)) (Some k))
          \<and> 1 \<le> snd (?raw ! j)
          \<and> ?out ! j = (if k = [] then ''Unknown'' else k, snd (?raw ! j))"
    if "j < length ?raw" for j
  proof -
    from that have "?raw ! j \<in> set ?raw" by simp
    from top10_raw_rows [OF this] obtain k where
      "?raw ! j = (Some k, int (count_list (map col (visitors t)) (Some k)))"
      "1 \<le> int (count_list (map col (visitors t)) (Some k))"
      by blast
    with that show ?thesis
      by (simp add: or_unknown_def)
  qed
  ultimately show ?thesis
    unfolding breakdown_of_def
    using top10_raw_length [of col t] top10_raw_distinct [of col t] by simp
qed

text \<open>
  C3, as amended. For every table, each of the four breakdowns of \<open>getVisitorStats\<close>
  comes from a query result of at most 10 groups with distinct keys, none of them null,
  each counted with the number of rows that have the key in the column (at least 1); the
  returned list has the same length and the same counts in the same order, is sorted by
  count, largest first, and its keys are those of the groups, except that the empty key is
  returned as "Unknown".
\<close>

theorem getVisitorStats_breakdowns:
  "breakdown_of (map country (visitors t)) (top10_raw country t) (visitorsByCountry (getVisitorStats t))
   \<and> breakdown_of (map device (visitors t)) (top10_raw device t) (visitorsByDevice (getVisitorStats t))
   \<and> breakdown_of (map browser (visitors t)) (top10_raw browser t) (visitorsByBrowser (getVisitorStats t))
   \<and> breakdown_of (map os (visitors t)) (top10_raw os t) (visitorsByOs (getVisitorStats t))"
  using breakdown_of_top10 [of country t] breakdown_of_top10 [of device t]
    breakdown_of_top10 [of browser t] breakdown_of_top10 [of os t]
  by (simp add: getVisitorStats_def)

lemma sample_top10:
  "top10_raw country \<lparr>visitors = [visitor_a, visitor_c, visitor_b], visitors_seq = 4\<rparr>
     = [(Some ''US'', 2), (Some ''DE'', 1)]"
  "top10_raw device \<lparr>visitors = [visitor_a, visitor_c, visitor_b], visitors_seq = 4\<rparr> = []"
  by (simp_all add: top10_raw_def group_by_count_def visitor_a_def visitor_b_def visitor_c_def)

theorem getVisitorStats_breakdowns_witness:
  "length (visitorsByCountry
      (getVisitorStats \<lparr>visitors = [visitor_a, visitor_c, visitor_b], visitors_seq = 4\<rparr>)) = 2
   \<and> visitorsByCountry
        (getVisitorStats \<lparr>visitors = [visitor_a, visitor_c, visitor_b], visitors_seq = 4\<rparr>) ! 0
      = (''US'', 2)
   \<and> visitorsByCountry
        (getVisitorStats \<lparr>visitors = [visitor_a, visitor_c, visitor_b], visitors_seq = 4\<rparr>) ! 1
      = (''DE'', 1)"
proof -
  let ?t = "\<lparr>visitors = [visitor_a, visitor_c, visitor_b], visitors_seq = 4\<rparr>"
  let ?raw = "[(Some ''US'', 2 :: int), (Some ''DE'', 1)]"
  note b = getVisitorStats_breakdowns [of ?t, THEN conjunct1, unfolded breakdown_of_def sample_top10]
  note rows = b [THEN conjunct2, THEN conjunct2, THEN conjunct2, THEN conjunct2, rule_format]
  have j0: "0 < length ?raw" and j1: "1 < length ?raw" by simp_all
  from b have "length (visitorsByCountry (getVisitorStats ?t)) = 2" by simp
  moreover from rows [OF j0] have "visitorsByCountry (getVisitorStats ?t) ! 0 = (''US'', 2)"
    by auto
  moreover from rows [OF j1] have "visitorsByCountry (getVisitorStats ?t) ! 1 = (''DE'', 1)"
    by auto
  ultimately show ?thesis by simp
qed

text \<open>
  C3 as stated says that \<open>getVisitorStats\<close> returns the group keys as they are, never
  "Unknown". A visitor created with the empty string as its country forms the group whose
  key is the empty string, which \<open>item.country || "Unknown"\<close> returns as "Unknown".
\<close>

theorem visitorsByCountry_unknown_counterexample:
  "top10_raw country (call (CreateVisitor 100 [Country \<mapsto> Some '''']) empty_visitors)
     = [(Some '''', 1)]
   \<and> visitorsByCountry
        (getVisitorStats (call (CreateVisitor 100 [Country \<mapsto> Some '''']) empty_visitors))
     = [(''Unknown'', 1)]"
  by (simp add: getVisitorStats_def top10_raw_def group_by_count_def or_unknown_def
      createVisitor_def Let_def empty_visitors_def inserted_def stored_def width_def
      too_long_def columns_def over_wide_def)

text \<open>
  C4. For a table of \<open>N\<close> rows, \<open>K\<close> of them with \<open>isUnique\<close> true, \<open>getVisitorStats\<close>
  returns \<open>totalVisitors = N\<close> and \<open>uniqueVisitors = K\<close>.
\<close>

theorem getVisitorStats_totals:
  assumes "length (visitors t) = N"
    and "length (filter (\<lambda>v. isUnique v = Some True) (visitors t)) = K"
  shows "totalVisitors (getVisitorStats t) = int N \<and> uniqueVisitors (getVisitorStats t) = int K"
  using assms by (simp add: getVisitorStats_def count_star_def)

theorem getVisitorStats_totals_witness:
  "totalVisitors (getVisitorStats \<lparr>visitors = [visitor_a, visitor_c, visitor_b], visitors_seq = 4\<rparr>) = 3
   \<and> uniqueVisitors (getVisitorStats \<lparr>visitors = [visitor_a, visitor_c, visitor_b], visitors_seq = 4\<rparr>) = 2"
proof -
  let ?t = "\<lparr>visitors = [visitor_a, visitor_c, visitor_b], visitors_seq = 4\<rparr>"
  have n: "length (visitors ?t) = 3" by simp
  have k: "length (filter (\<lambda>v. isUnique v = Some True) (visitors ?t)) = 2"
    by (simp add: visitor_a_def visitor_b_def visitor_c_def)
  from getVisitorStats_totals [OF n k] show ?thesis by simp
qed

end
